theory Spec2Isabelle
  imports Complex_Main "HOL-Library.Sublist" "HOL-Library.AList"
begin

section \<open>The forest sorter (\<^verbatim>\<open>forest_sorter.py\<close>)\<close>

text \<open>
  The program reads an HDF5 file of snapshot groups, computes for every non-empty
  snapshot the permutation that sorts its records by the configured keys, builds for
  every snapshot a dictionary from old halo IDs to new halo IDs, and then writes every
  field of every group to the output file in sorted order, with the identifier fields
  translated through the dictionaries.

  Every Python exception is a value of \<open>error\<close>; a function that can raise returns
  \<open>error + 'a\<close> with \<open>Inl\<close> for the exception.
\<close>

subsection \<open>Data model\<close>

datatype error = KeyError | TypeError | ValueError | IndexError | RangeError
  | ZeroDivisionError

text \<open>
  An HDF5 group is a list of named one-dimensional arrays, an HDF5 file a list of named
  groups, both in the iteration order of \<^verbatim>\<open>keys()\<close>. All arrays of one file carry the
  same value type in the model; the identifier arithmetic of \<^verbatim>\<open>sort_and_write_file\<close>
  needs it to be \<open>int\<close>, the sort of \<^verbatim>\<open>get_sort_indices\<close> only an order.
\<close>

type_synonym 'a group = "(string \<times> 'a list) list"
type_synonym 'a h5file = "(string \<times> 'a group) list"

text \<open>The dictionary returned by \<^verbatim>\<open>parse_inputs\<close>, as far as the sorter reads it.\<close>

record args =
  sort_fields :: "string option list"
  halo_id :: string
  ID_fields :: "string list"
  index_mult_factor :: int

text \<open>\<^verbatim>\<open>d[k]\<close> on a group, a file or a dictionary: a missing name raises \<^verbatim>\<open>KeyError\<close>.\<close>

definition getitem :: "('k \<times> 'v) list \<Rightarrow> 'k \<Rightarrow> error + 'v" where
  "getitem d k = (case map_of d k of None \<Rightarrow> Inl KeyError | Some v \<Rightarrow> Inr v)"

definition dict_getitem :: "('k \<rightharpoonup> 'v) \<Rightarrow> 'k \<Rightarrow> error + 'v" where
  "dict_getitem d k = (case d k of None \<Rightarrow> Inl KeyError | Some v \<Rightarrow> Inr v)"

text \<open>
  \<^verbatim>\<open>a[indices]\<close> with an index array on a numpy array: every index must be in range,
  otherwise \<^verbatim>\<open>IndexError\<close> (the indices of the program are never negative).
\<close>

definition take_indices :: "'a list \<Rightarrow> nat list \<Rightarrow> error + 'a list" where
  "take_indices a indices =
     (if list_all (\<lambda>i. i < length a) indices then Inr (map (\<lambda>i. a ! i) indices)
      else Inl IndexError)"

subsection \<open>The temporal ID codec (\<^verbatim>\<open>genesis.utils.common\<close>)\<close>

text \<open>Integer division that truncates towards zero, as the cast of a quotient to an integer does.\<close>

definition trunc_div :: "int \<Rightarrow> int \<Rightarrow> int" where
  "trunc_div a b = sgn a * sgn b * (\<bar>a\<bar> div \<bar>b\<bar>)"

definition trunc_rem :: "int \<Rightarrow> int \<Rightarrow> int" where
  "trunc_rem a b = a - trunc_div a b * b"

text \<open>
  Modelled from the spec: \<^verbatim>\<open>cmn.index_to_temporalID\<close>, which is not part of
  \<^verbatim>\<open>forest_sorter.py\<close>. The spec gives \<open>encode(s, i) = s * M + i\<close>, failing with
  \<open>RangeError\<close> if \<open>i \<ge> M\<close>.
\<close>

definition encode :: "int \<Rightarrow> int \<Rightarrow> int \<Rightarrow> error + int" where
  "encode M s i = (if i \<ge> M then Inl RangeError else Inr (s * M + i))"

text \<open>
  Modelled from the spec: \<^verbatim>\<open>cmn.index_to_temporalID\<close> on an array of local indices
  (the program passes \<^verbatim>\<open>np.arange(len(indices))\<close>): every index is encoded, and the
  first failure is the failure of the call.
\<close>

fun index_to_temporalID :: "int list \<Rightarrow> int \<Rightarrow> int \<Rightarrow> error + int list" where
  "index_to_temporalID [] snapnum M = Inr []"
| "index_to_temporalID (i # is) snapnum M =
     (case encode M snapnum i of
        Inl e \<Rightarrow> Inl e
      | Inr v \<Rightarrow> (case index_to_temporalID is snapnum M of
                   Inl e \<Rightarrow> Inl e
                 | Inr vs \<Rightarrow> Inr (v # vs)))"

text \<open>
  Modelled from the spec: the decoder, which is not part of \<^verbatim>\<open>forest_sorter.py\<close>.
  The spec gives the truncating integer quotient by \<open>M\<close> as the snapshot number and the
  remainder as the local index. A zero multiplier is a division by zero. (The comment
  above \<^verbatim>\<open>ID_maps[0] = {-1:-1}\<close> in the program also describes the quotient as cast
  to an integer, so that \<open>-1\<close> gets the snapshot number \<open>0\<close> under a large multiplier.)
\<close>

definition decode :: "int \<Rightarrow> int \<Rightarrow> error + (int \<times> int)" where
  "decode M v = (if M = 0 then Inl ZeroDivisionError
                 else Inr (trunc_div v M, trunc_rem v M))"

text \<open>
  Modelled from the spec: \<^verbatim>\<open>cmn.temporalID_to_snapnum\<close> on an array of identifiers,
  the snapshot number of \<open>decode\<close> for every element.
\<close>

definition temporalID_to_snapnum :: "int list \<Rightarrow> int \<Rightarrow> error + int list" where
  "temporalID_to_snapnum temporalID M =
     (if M = 0 then Inl ZeroDivisionError
      else Inr (map (\<lambda>v. trunc_div v M) temporalID))"

subsection \<open>\<^verbatim>\<open>get_sort_indices\<close>\<close>

text \<open>
  \<^verbatim>\<open>str.upper\<close> on the ASCII letters; the bytes of a name outside \<open>a\<close>..\<open>z\<close> are
  left as they are.
\<close>

definition upper_char :: "char \<Rightarrow> char" where
  "upper_char c =
     (let n = (of_char c :: nat) in if 97 \<le> n \<and> n \<le> 122 then char_of (n - 32) else c)"

definition upper :: "string \<Rightarrow> string" where
  "upper s = map upper_char s"

text \<open>The test \<^verbatim>\<open>key is None or "NONE" in key.upper()\<close>: \<^verbatim>\<open>in\<close> on strings is the substring test.\<close>

definition skip_key :: "string option \<Rightarrow> bool" where
  "skip_key key = (case key of None \<Rightarrow> True | Some k \<Rightarrow> sublist ''NONE'' (upper k))"

text \<open>
  The loop over \<^verbatim>\<open>reversed(args["sort_fields"])\<close>: \<open>keys\<close> is what is left of the
  reversed list, \<open>sort_keys\<close> the arrays appended so far.
\<close>

fun sort_keys_loop ::
  "'a h5file \<Rightarrow> string \<Rightarrow> string option list \<Rightarrow> 'a list list \<Rightarrow> error + 'a list list" where
  "sort_keys_loop file_in snap_key [] sort_keys = Inr sort_keys"
| "sort_keys_loop file_in snap_key (None # keys) sort_keys =
     sort_keys_loop file_in snap_key keys sort_keys"
| "sort_keys_loop file_in snap_key (Some key # keys) sort_keys =
     (if skip_key (Some key) then sort_keys_loop file_in snap_key keys sort_keys
      else case getitem file_in snap_key of
             Inl e \<Rightarrow> Inl e
           | Inr g \<Rightarrow> (case getitem g key of
                        Inl e \<Rightarrow> Inl e
                      | Inr a \<Rightarrow> sort_keys_loop file_in snap_key keys (sort_keys @ [a])))"

text \<open>
  \<^verbatim>\<open>np.lexsort\<close>: an empty sequence of keys is a \<^verbatim>\<open>TypeError\<close>, keys of different
  lengths a \<^verbatim>\<open>ValueError\<close>. Otherwise the indices \<open>0..n-1\<close> are sorted stably by each
  key in turn, the first key first, so that the last key is the primary one.
\<close>

definition lexsort :: "('a::linorder) list list \<Rightarrow> error + nat list" where
  "lexsort keys =
     (case keys of
        [] \<Rightarrow> Inl TypeError
      | k # ks \<Rightarrow>
          if list_all (\<lambda>k'. length k' = length k) ks
          then Inr (foldl (\<lambda>indices a. sort_key (\<lambda>i. a ! i) indices) [0..<length k] keys)
          else Inl ValueError)"

definition get_sort_indices :: "('a::linorder) h5file \<Rightarrow> string \<Rightarrow> args \<Rightarrow> error + nat list" where
  "get_sort_indices file_in snap_key a =
     (case sort_keys_loop file_in snap_key (rev (sort_fields a)) [] of
        Inl e \<Rightarrow> Inl e
      | Inr sort_keys \<Rightarrow> lexsort sort_keys)"

subsection \<open>\<^verbatim>\<open>sort_and_write_file\<close>: building the dictionaries\<close>

text \<open>\<^verbatim>\<open>dict(zip(keys, values))\<close>: the pairs are inserted in order, a later pair replaces an earlier one with the same key.\<close>

definition dict_zip :: "'k list \<Rightarrow> 'v list \<Rightarrow> ('k \<rightharpoonup> 'v)" where
  "dict_zip ks vs = Map.empty(ks [\<mapsto>] vs)"

type_synonym id_maps = "int \<rightharpoonup> (int \<rightharpoonup> int)"
type_synonym snapshot_indices = "string \<rightharpoonup> nat list"

text \<open>
  The body of the first loop for one snapshot. \<open>None\<close> is the \<^verbatim>\<open>continue\<close> of a
  snapshot without halos; otherwise the result is \<open>indices\<close>, the snapshot number
  \<^verbatim>\<open>Snap_Nums[snap_key]\<close> and the dictionary \<open>oldIDs_to_newIDs\<close>.
\<close>

definition snapshot_map ::
  "args \<Rightarrow> (string \<rightharpoonup> int) \<Rightarrow> int h5file \<Rightarrow> string
     \<Rightarrow> error + (nat list \<times> int \<times> (int \<rightharpoonup> int)) option" where
  "snapshot_map a Snap_Nums f_in snap_key =
     (case getitem f_in snap_key of
        Inl e \<Rightarrow> Inl e
      | Inr g \<Rightarrow>
     (case getitem g (halo_id a) of
        Inl e \<Rightarrow> Inl e
      | Inr old_haloIDs \<Rightarrow>
          if length old_haloIDs = 0 then Inr None
          else
     (case get_sort_indices f_in snap_key a of
        Inl e \<Rightarrow> Inl e
      | Inr indices \<Rightarrow>
     (case take_indices old_haloIDs indices of
        Inl e \<Rightarrow> Inl e
      | Inr old_haloIDs_sorted \<Rightarrow>
     (case dict_getitem Snap_Nums snap_key of
        Inl e \<Rightarrow> Inl e
      | Inr snapnum \<Rightarrow>
     (case index_to_temporalID (map int [0..<length indices]) snapnum (index_mult_factor a) of
        Inl e \<Rightarrow> Inl e
      | Inr new_haloIDs \<Rightarrow>
          Inr (Some (indices, snapnum, dict_zip old_haloIDs_sorted new_haloIDs))))))))"

text \<open>The first loop, over \<^verbatim>\<open>Snap_Keys\<close>, with the two dictionaries it fills as state.\<close>

fun pass1_loop ::
  "args \<Rightarrow> (string \<rightharpoonup> int) \<Rightarrow> int h5file \<Rightarrow> string list
     \<Rightarrow> id_maps \<times> snapshot_indices \<Rightarrow> error + (id_maps \<times> snapshot_indices)" where
  "pass1_loop a Snap_Nums f_in [] st = Inr st"
| "pass1_loop a Snap_Nums f_in (snap_key # keys) (ID_maps, snapshot_indices) =
     (case snapshot_map a Snap_Nums f_in snap_key of
        Inl e \<Rightarrow> Inl e
      | Inr None \<Rightarrow> pass1_loop a Snap_Nums f_in keys (ID_maps, snapshot_indices)
      | Inr (Some (indices, snapnum, oldIDs_to_newIDs)) \<Rightarrow>
          pass1_loop a Snap_Nums f_in keys
            (ID_maps(snapnum \<mapsto> oldIDs_to_newIDs), snapshot_indices(snap_key \<mapsto> indices)))"

text \<open>The first loop from the empty dictionaries, followed by \<^verbatim>\<open>ID_maps[0] = {-1:-1}\<close>.\<close>

definition pass1 ::
  "args \<Rightarrow> string list \<Rightarrow> (string \<rightharpoonup> int) \<Rightarrow> int h5file
     \<Rightarrow> error + (id_maps \<times> snapshot_indices)" where
  "pass1 a Snap_Keys Snap_Nums f_in =
     (case pass1_loop a Snap_Nums f_in Snap_Keys (Map.empty, Map.empty) of
        Inl e \<Rightarrow> Inl e
      | Inr (ID_maps, snapshot_indices) \<Rightarrow>
          Inr (ID_maps(0 \<mapsto> [- 1 \<mapsto> - 1]), snapshot_indices))"

subsection \<open>\<^verbatim>\<open>sort_and_write_file\<close>: rewriting the fields\<close>

text \<open>The list comprehension \<^verbatim>\<open>[ID_maps[snap][ID] for snap, ID in zip(snapnum, oldID)]\<close>.\<close>

fun lookup_newIDs :: "id_maps \<Rightarrow> (int \<times> int) list \<Rightarrow> error + int list" where
  "lookup_newIDs ID_maps [] = Inr []"
| "lookup_newIDs ID_maps ((snap, ID) # rest) =
     (case dict_getitem ID_maps snap of
        Inl e \<Rightarrow> Inl e
      | Inr d \<Rightarrow>
     (case dict_getitem d ID of
        Inl e \<Rightarrow> Inl e
      | Inr newID \<Rightarrow>
     (case lookup_newIDs ID_maps rest of
        Inl e \<Rightarrow> Inl e
      | Inr newIDs \<Rightarrow> Inr (newID # newIDs))))"

text \<open>The array \<open>to_write\<close> of a field: translated for an identifier field, as read otherwise.\<close>

definition to_write :: "args \<Rightarrow> id_maps \<Rightarrow> int h5file \<Rightarrow> string \<Rightarrow> string \<Rightarrow> error + int list" where
  "to_write a ID_maps f_in key field =
     (case getitem f_in key of
        Inl e \<Rightarrow> Inl e
      | Inr g \<Rightarrow>
     (case getitem g field of
        Inl e \<Rightarrow> Inl e
      | Inr oldID \<Rightarrow>
          if field \<in> set (ID_fields a) then
            (case temporalID_to_snapnum oldID (index_mult_factor a) of
               Inl e \<Rightarrow> Inl e
             | Inr snapnum \<Rightarrow> lookup_newIDs ID_maps (zip snapnum oldID))
          else Inr oldID))"

text \<open>
  \<^verbatim>\<open>f_out[key][field][:] = value\<close>: the dataset must exist; a value of the dataset's
  length replaces its contents, a value of length one is broadcast over it, and any
  other length is the \<^verbatim>\<open>TypeError\<close> of h5py.
\<close>

definition write_dataset :: "int h5file \<Rightarrow> string \<Rightarrow> string \<Rightarrow> int list \<Rightarrow> error + int h5file" where
  "write_dataset f_out key field v =
     (case getitem f_out key of
        Inl e \<Rightarrow> Inl e
      | Inr g \<Rightarrow>
     (case getitem g field of
        Inl e \<Rightarrow> Inl e
      | Inr old \<Rightarrow>
          if length v = length old
          then Inr (AList.update key (AList.update field v g) f_out)
          else if length v = 1
          then Inr (AList.update key (AList.update field (replicate (length old) (v ! 0)) g) f_out)
          else Inl TypeError))"

text \<open>
  Modelled from the spec: \<^verbatim>\<open>cmn.copy_group\<close>, which is not part of
  \<^verbatim>\<open>forest_sorter.py\<close>. The spec has the copy routine give the output the group's
  layout with arrays of matching length, and copy groups that hold no records as they
  are: the group is copied with its data.
\<close>

definition copy_group :: "int h5file \<Rightarrow> int h5file \<Rightarrow> string \<Rightarrow> error + int h5file" where
  "copy_group f_in f_out key =
     (case getitem f_in key of
        Inl e \<Rightarrow> Inl e
      | Inr g \<Rightarrow> Inr (AList.update key g f_out))"

text \<open>
  The \<^verbatim>\<open>try\<close> block at the head of the field loop: the field is processed only if the
  group has the halo ID field and that field is not empty; a \<^verbatim>\<open>KeyError\<close> is caught.
\<close>

definition has_halos :: "args \<Rightarrow> int h5file \<Rightarrow> string \<Rightarrow> bool" where
  "has_halos a f_in key =
     (case getitem f_in key of
        Inl e \<Rightarrow> False
      | Inr g \<Rightarrow> (case getitem g (halo_id a) of
                   Inl e \<Rightarrow> False
                 | Inr ids \<Rightarrow> length ids \<noteq> 0))"

text \<open>One field that is not skipped: the value in sorted order, and the write.\<close>

definition rewrite_field ::
  "args \<Rightarrow> id_maps \<Rightarrow> snapshot_indices \<Rightarrow> int h5file \<Rightarrow> string \<Rightarrow> string
     \<Rightarrow> int h5file \<Rightarrow> error + int h5file" where
  "rewrite_field a ID_maps snapshot_indices f_in key field f_out =
     (case to_write a ID_maps f_in key field of
        Inl e \<Rightarrow> Inl e
      | Inr tw \<Rightarrow>
     (case dict_getitem snapshot_indices key of
        Inl e \<Rightarrow> Inl e
      | Inr indices \<Rightarrow>
     (case take_indices tw indices of
        Inl e \<Rightarrow> Inl e
      | Inr v \<Rightarrow> write_dataset f_out key field v)))"

text \<open>
  The loop over the fields of one group. The result is the exception that ended the
  loop, if any, and the output file as it is then.
\<close>

fun field_loop ::
  "args \<Rightarrow> id_maps \<Rightarrow> snapshot_indices \<Rightarrow> int h5file \<Rightarrow> string \<Rightarrow> string list
     \<Rightarrow> int h5file \<Rightarrow> error option \<times> int h5file" where
  "field_loop a ID_maps snapshot_indices f_in key [] f_out = (None, f_out)"
| "field_loop a ID_maps snapshot_indices f_in key (field # rest) f_out =
     (if \<not> has_halos a f_in key
      then field_loop a ID_maps snapshot_indices f_in key rest f_out
      else case rewrite_field a ID_maps snapshot_indices f_in key field f_out of
             Inl e \<Rightarrow> (Some e, f_out)
           | Inr f_out' \<Rightarrow> field_loop a ID_maps snapshot_indices f_in key rest f_out')"

text \<open>The loop over \<^verbatim>\<open>f_in.keys()\<close>: the group is copied, then its fields are rewritten.\<close>

fun key_loop ::
  "args \<Rightarrow> id_maps \<Rightarrow> snapshot_indices \<Rightarrow> int h5file \<Rightarrow> string list
     \<Rightarrow> int h5file \<Rightarrow> error option \<times> int h5file" where
  "key_loop a ID_maps snapshot_indices f_in [] f_out = (None, f_out)"
| "key_loop a ID_maps snapshot_indices f_in (key # keys) f_out =
     (case copy_group f_in f_out key of
        Inl e \<Rightarrow> (Some e, f_out)
      | Inr f_out1 \<Rightarrow>
     (case getitem f_in key of
        Inl e \<Rightarrow> (Some e, f_out1)
      | Inr g \<Rightarrow>
     (case field_loop a ID_maps snapshot_indices f_in key (map fst g) f_out1 of
        (Some e, f_out2) \<Rightarrow> (Some e, f_out2)
      | (None, f_out2) \<Rightarrow> key_loop a ID_maps snapshot_indices f_in keys f_out2)))"

text \<open>
  The whole run. \<open>get_snapkeys_and_nums\<close> stands for \<^verbatim>\<open>cmn.get_snapkeys_and_nums\<close>,
  which is not part of \<^verbatim>\<open>forest_sorter.py\<close>: from the names of the groups it gives
  the snapshot names and the dictionary from snapshot name to snapshot number. The
  output file is opened empty; the result is the exception that ended the run, if any,
  and the output file as the run leaves it.
\<close>

definition sort_and_write_file ::
  "(string list \<Rightarrow> string list \<times> (string \<rightharpoonup> int)) \<Rightarrow> args \<Rightarrow> int h5file
     \<Rightarrow> error option \<times> int h5file" where
  "sort_and_write_file get_snapkeys_and_nums a f_in =
     (case get_snapkeys_and_nums (map fst f_in) of
        (Snap_Keys, Snap_Nums) \<Rightarrow>
     (case pass1 a Snap_Keys Snap_Nums f_in of
        Inl e \<Rightarrow> (Some e, [])
      | Inr (ID_maps, snapshot_indices) \<Rightarrow>
          key_loop a ID_maps snapshot_indices f_in (map fst f_in) []))"

text \<open>
  A stand-in for \<^verbatim>\<open>cmn.get_snapkeys_and_nums\<close> in the examples: the snapshots are the
  groups that a table names, in the order of the file, with the numbers of the table.
\<close>

definition snapshots_by_table ::
  "(string \<times> int) list \<Rightarrow> string list \<Rightarrow> string list \<times> (string \<rightharpoonup> int)" where
  "snapshots_by_table table keys = (filter (\<lambda>key. key \<in> fst ` set table) keys, map_of table)"

subsection \<open>Reading the files and the dictionaries\<close>

text \<open>The array \<^verbatim>\<open>f[key][field]\<close>, if the group and the field exist.\<close>

definition cell :: "'a h5file \<Rightarrow> string \<Rightarrow> string \<Rightarrow> 'a list option" where
  "cell f key field = (case map_of f key of None \<Rightarrow> None | Some g \<Rightarrow> map_of g field)"

text \<open>
  What holds of an entry of \<open>snapshot_indices\<close>: it is the result of
  \<open>get_sort_indices\<close> for that snapshot, and every position of it is below the
  multiplier (the positions have been encoded).
\<close>

definition snapshot_inv :: "args \<Rightarrow> int h5file \<Rightarrow> string \<Rightarrow> nat list \<Rightarrow> bool" where
  "snapshot_inv a f_in k indices \<longleftrightarrow>
     get_sort_indices f_in k a = Inr indices
     \<and> (\<forall>j < length indices. int j < index_mult_factor a)"

text \<open>
  What holds of a table that the first loop has stored under a snapshot number: every
  value is that snapshot number times the multiplier plus a local index below the
  multiplier.
\<close>

definition table_inv :: "args \<Rightarrow> int \<Rightarrow> (int \<rightharpoonup> int) \<Rightarrow> bool" where
  "table_inv a s d \<longleftrightarrow>
     (\<forall>v w. d v = Some w \<longrightarrow>
        (\<exists>k. 0 \<le> k \<and> k < index_mult_factor a \<and> w = s * index_mult_factor a + k))"

text \<open>
  The right-hand side of the assignment \<^verbatim>\<open>f_out[key][field][:] = to_write[snapshot_indices[key]]\<close>:
  the array of the field, translated if it holds identifiers, in sorted order.
\<close>

definition sorted_value ::
  "args \<Rightarrow> id_maps \<Rightarrow> snapshot_indices \<Rightarrow> int h5file \<Rightarrow> string \<Rightarrow> string \<Rightarrow> error + int list" where
  "sorted_value a ID_maps si f_in key field =
     (case to_write a ID_maps f_in key field of
        Inl e \<Rightarrow> Inl e
      | Inr tw \<Rightarrow>
     (case dict_getitem si key of
        Inl e \<Rightarrow> Inl e
      | Inr indices \<Rightarrow> take_indices tw indices))"

text \<open>
  The contents of a dataset that held \<open>old\<close> after a successful assignment of \<open>v\<close>:
  \<open>v\<close> itself, or its single element broadcast over the length of the dataset.
\<close>

definition written_value :: "int list \<Rightarrow> int list \<Rightarrow> int list" where
  "written_value old v = (if length v = length old then v else replicate (length old) (v ! 0))"

text \<open>
  The contents of \<^verbatim>\<open>f_out[key][field]\<close> once the group has been copied and the field
  has been processed without an exception: the assigned value in a group with halos,
  the copy of the input array in a group that the field loop skips.
\<close>

definition field_result ::
  "args \<Rightarrow> id_maps \<Rightarrow> snapshot_indices \<Rightarrow> int h5file \<Rightarrow> string \<Rightarrow> string \<Rightarrow> int list option" where
  "field_result a ID_maps si f_in key field =
     (if has_halos a f_in key
      then (case sorted_value a ID_maps si f_in key field of
              Inl e \<Rightarrow> None
            | Inr v \<Rightarrow> map_option (\<lambda>old. written_value old v) (cell f_in key field))
      else cell f_in key field)"

text \<open>
  Processing the field raises \<open>e\<close>: in the computation of the value to assign, or as the
  \<^verbatim>\<open>TypeError\<close> of an assignment whose length does not fit the dataset.
\<close>

definition field_raises ::
  "args \<Rightarrow> id_maps \<Rightarrow> snapshot_indices \<Rightarrow> int h5file \<Rightarrow> string \<Rightarrow> string \<Rightarrow> error \<Rightarrow> bool" where
  "field_raises a ID_maps si f_in key field e \<longleftrightarrow>
     sorted_value a ID_maps si f_in key field = Inl e
     \<or> (\<exists>v old. sorted_value a ID_maps si f_in key field = Inr v
            \<and> cell f_in key field = Some old
            \<and> length v \<noteq> length old \<and> length v \<noteq> 1 \<and> e = TypeError)"

section \<open>Properties\<close>

subsection \<open>The codec\<close>

lemma trunc_div_nonneg: "0 \<le> a \<Longrightarrow> 0 < b \<Longrightarrow> trunc_div a b = a div b"
  by (cases "a = 0") (simp_all add: trunc_div_def)

text \<open>
  C2. For every snapshot number \<open>s \<ge> 0\<close> and local index \<open>0 \<le> i < M\<close>, encoding
  succeeds with \<open>s * M + i\<close>, and decoding that identifier (truncating quotient and
  remainder by \<open>M\<close>) gives back the pair \<open>(s, i)\<close>.
\<close>

theorem codec_round_trip:
  assumes "0 \<le> s" and "0 \<le> i" and "i < M"
  shows "encode M s i = Inr (s * M + i) \<and> decode M (s * M + i) = Inr (s, i)"
proof -
  have M: "0 < M" using assms by linarith
  have "0 \<le> s * M" using assms(1) M by simp
  then have nn: "0 \<le> s * M + i" using assms(2) by linarith
  have q: "(s * M + i) div M = s"
    using assms M by (simp add: div_pos_pos_trivial)
  have d: "trunc_div (s * M + i) M = s"
    using trunc_div_nonneg [OF nn M] q by simp
  show ?thesis
    using assms M d by (simp add: encode_def decode_def trunc_rem_def)
qed

theorem codec_round_trip_witness:
  "(0::int) \<le> 3 \<and> (0::int) \<le> 7 \<and> (7::int) < 10
   \<and> encode 10 3 7 = Inr 37 \<and> decode 10 37 = Inr (3, 7)"
  using codec_round_trip [of 3 7 10] by simp

subsection \<open>The sort keys\<close>

lemma sort_keys_loop_columns:
  assumes "sort_keys_loop file_in snap_key keys acc = Inr r"
      and "getitem file_in snap_key = Inr g"
  shows "map Some r =
         map Some acc @ map (\<lambda>key. Option.bind key (map_of g)) (filter (\<lambda>key. \<not> skip_key key) keys)"
  using assms
proof (induction file_in snap_key keys acc rule: sort_keys_loop.induct)
  case (1 file_in snap_key sort_keys)
  then show ?case by simp
next
  case (2 file_in snap_key keys sort_keys)
  then show ?case by (simp add: skip_key_def)
next
  case (3 file_in snap_key key keys sort_keys)
  show ?case
  proof (cases "skip_key (Some key)")
    case True
    with 3 show ?thesis by simp
  next
    case False
    from False "3.prems" obtain a where a: "getitem g key = Inr a"
      and r: "sort_keys_loop file_in snap_key keys (sort_keys @ [a]) = Inr r"
      by (auto split: sum.splits)
    from a have "map_of g key = Some a"
      by (auto simp: getitem_def split: option.splits)
    with "3.IH"(2) [OF False "3.prems"(2) a r "3.prems"(2)] False show ?thesis
      by simp
  qed
qed

lemma skip_key_NONE_ForestID: "\<not> skip_key (Some ''ForestID'')"
  by code_simp

lemma skip_key_NONE_Mass: "\<not> skip_key (Some ''Mass'')"
  by code_simp

text \<open>
  C6. With the two sort keys \<open>ForestID = [1, 4, 39, 1, 1, 4]\<close> (listed first, the
  primary key) and \<open>Mass = [4e9, 1e11, 8e8, 7e9, 3e11, 5e6]\<close> (the secondary key),
  \<open>get_sort_indices\<close> returns the permutation \<open>[0, 3, 4, 5, 1, 2]\<close>.
\<close>

theorem lexicographic_literal_case:
  fixes file_in :: "real h5file"
  assumes "sort_fields a = [Some ''ForestID'', Some ''Mass'']"
      and "getitem file_in snap_key = Inr g"
      and "getitem g ''ForestID'' = Inr [1, 4, 39, 1, 1, 4]"
      and "getitem g ''Mass'' =
             Inr [4000000000, 100000000000, 800000000, 7000000000, 300000000000, 5000000]"
  shows "get_sort_indices file_in snap_key a = Inr [0, 3, 4, 5, 1, 2]"
proof -
  have keys: "sort_keys_loop file_in snap_key (rev (sort_fields a)) [] =
      Inr [[4000000000, 100000000000, 800000000, 7000000000, 300000000000, 5000000],
           [1, 4, 39, 1, 1, 4]]"
    using assms skip_key_NONE_ForestID skip_key_NONE_Mass by simp
  have "lexsort [[4000000000, 100000000000, 800000000, 7000000000, 300000000000, 5000000],
           [1, 4, 39, 1, 1, 4 :: real]] = Inr [0, 3, 4, 5, 1, 2]"
    by (simp add: lexsort_def upt_rec)
  with keys show ?thesis
    by (simp add: get_sort_indices_def)
qed

theorem lexicographic_literal_case_witness:
  "get_sort_indices
     [(''Snap_042'',
       [(''ForestID'', [1, 4, 39, 1, 1, 4 :: real]),
        (''Mass'', [4000000000, 100000000000, 800000000, 7000000000, 300000000000, 5000000])])]
     ''Snap_042''
     \<lparr>sort_fields = [Some ''ForestID'', Some ''Mass''], halo_id = ''ID'',
      ID_fields = [''ID''], index_mult_factor = 1000000000000\<rparr>
   = Inr [0, 3, 4, 5, 1, 2]"
proof -
  let ?g = "[(''ForestID'', [1, 4, 39, 1, 1, 4 :: real]),
        (''Mass'', [4000000000, 100000000000, 800000000, 7000000000, 300000000000, 5000000])]"
  let ?a = "\<lparr>sort_fields = [Some ''ForestID'', Some ''Mass''], halo_id = ''ID'',
      ID_fields = [''ID''], index_mult_factor = 1000000000000\<rparr>"
  have 1: "sort_fields ?a = [Some ''ForestID'', Some ''Mass'']"
    by simp
  have 2: "getitem [(''Snap_042'', ?g)] ''Snap_042'' = Inr ?g"
    by (simp add: getitem_def)
  have 3: "getitem ?g ''ForestID'' = Inr [1, 4, 39, 1, 1, 4]"
    by (simp add: getitem_def)
  have 4: "getitem ?g ''Mass'' =
      Inr [4000000000, 100000000000, 800000000, 7000000000, 300000000000, 5000000]"
    by (simp add: getitem_def)
  from lexicographic_literal_case [OF 1 2 3 4] show ?thesis .
qed

text \<open>
  C7, as the claim states it, fails: the name \<open>Nonempty\<close> is not equal to \<open>none\<close> in any
  letter case, yet it is skipped, because the test is a substring test. With
  \<open>ForestID = [1, 1]\<close> and \<open>Nonempty = [2, 1]\<close> the result is the identity \<open>[0, 1]\<close>,
  where a sort that used the second key would return \<open>[1, 0]\<close>.
\<close>

theorem skip_only_none_counterexample:
  "upper ''Nonempty'' \<noteq> upper ''none'' \<and> skip_key (Some ''Nonempty'')
   \<and> get_sort_indices
        [(''Snap_001'', [(''ForestID'', [1, 1 :: int]), (''Nonempty'', [2, 1])])]
        ''Snap_001''
        \<lparr>sort_fields = [Some ''ForestID'', Some ''Nonempty''], halo_id = ''ID'',
         ID_fields = [''ID''], index_mult_factor = 1000000000000\<rparr>
      = Inr [0, 1]
   \<and> lexsort [[2, 1], [1, 1 :: int]] = Inr [1, 0]"
  by code_simp

text \<open>
  C7, amended. An entry of the sort-key list is skipped if and only if it is absent
  (\<open>None\<close>) or its upper-cased name contains \<open>NONE\<close> as a substring; the arrays that
  enter the sort are exactly those named by the other entries, in the order of the
  reversed list.
\<close>

theorem skip_key_substring:
  "(skip_key key \<longleftrightarrow>
      key = None \<or> (\<exists>k pre post. key = Some k \<and> upper k = pre @ ''NONE'' @ post))
   \<and> (sort_keys_loop file_in snap_key (rev (sort_fields a)) [] = Inr r
        \<and> getitem file_in snap_key = Inr g \<longrightarrow>
      map Some r =
        map (\<lambda>key. Option.bind key (map_of g))
          (filter (\<lambda>key. \<not> skip_key key) (rev (sort_fields a))))"
proof
  show "skip_key key \<longleftrightarrow>
      key = None \<or> (\<exists>k pre post. key = Some k \<and> upper k = pre @ ''NONE'' @ post)"
    by (cases key) (auto simp: skip_key_def sublist_def)
next
  show "sort_keys_loop file_in snap_key (rev (sort_fields a)) [] = Inr r
        \<and> getitem file_in snap_key = Inr g \<longrightarrow>
      map Some r =
        map (\<lambda>key. Option.bind key (map_of g))
          (filter (\<lambda>key. \<not> skip_key key) (rev (sort_fields a)))"
    using sort_keys_loop_columns [of file_in snap_key "rev (sort_fields a)" "[]" r g]
    by simp
qed

theorem skip_key_substring_witness:
  "skip_key (Some ''hostNoneID'')
   \<and> sort_keys_loop
        [(''Snap_001'', [(''ForestID'', [1, 1 :: int]), (''hostNoneID'', [2, 1])])]
        ''Snap_001'' [Some ''hostNoneID'', None, Some ''ForestID''] [] = Inr [[1, 1]]
   \<and> map Some [[1, 1 :: int]] =
        map (\<lambda>key. Option.bind key
               (map_of [(''ForestID'', [1, 1 :: int]), (''hostNoneID'', [2, 1])]))
          (filter (\<lambda>key. \<not> skip_key key) [Some ''hostNoneID'', None, Some ''ForestID''])"
proof -
  let ?a = "\<lparr>sort_fields = [Some ''ForestID'', None, Some ''hostNoneID''], halo_id = ''ID'',
             ID_fields = [''ID''], index_mult_factor = 1000000000000\<rparr>"
  let ?g = "[(''ForestID'', [1, 1 :: int]), (''hostNoneID'', [2, 1])]"
  have s: "skip_key (Some ''hostNoneID'')"
    by code_simp
  have l: "sort_keys_loop [(''Snap_001'', ?g)] ''Snap_001''
             [Some ''hostNoneID'', None, Some ''ForestID''] [] = Inr [[1, 1]]"
    by code_simp
  have g: "getitem [(''Snap_001'', ?g)] ''Snap_001'' = Inr ?g"
    by (simp add: getitem_def)
  from skip_key_substring [of "Some ''hostNoneID''" "[(''Snap_001'', ?g)]" "''Snap_001''" ?a
      "[[1, 1]]" ?g] s l g
  show ?thesis by simp
qed

subsection \<open>The permutation\<close>

lemma foldl_sort_key_perm:
  "length (foldl (\<lambda>indices a. sort_key (\<lambda>i. a ! i) indices) init keys) = length init
   \<and> distinct (foldl (\<lambda>indices a. sort_key (\<lambda>i. a ! i) indices) init keys) = distinct init
   \<and> set (foldl (\<lambda>indices a. sort_key (\<lambda>i. a ! i) indices) init keys) = set init"
  by (induction keys arbitrary: init) simp_all

lemma lexsort_perm:
  assumes "lexsort keys = Inr indices"
  shows "keys \<noteq> [] \<and> length indices = length (hd keys) \<and> distinct indices
         \<and> set indices = {0..<length (hd keys)}"
proof (cases keys)
  case Nil
  with assms show ?thesis by (simp add: lexsort_def)
next
  case (Cons k ks)
  with assms have "indices = foldl (\<lambda>indices a. sort_key (\<lambda>i. a ! i) indices) [0..<length k] keys"
    by (auto simp: lexsort_def split: if_splits)
  with Cons foldl_sort_key_perm [of "[0..<length k]" keys] show ?thesis
    by simp
qed

lemma sort_keys_loop_in_group:
  assumes "sort_keys_loop file_in snap_key keys acc = Inr r"
      and "getitem file_in snap_key = Inr g"
      and "set acc \<subseteq> snd ` set g"
  shows "set r \<subseteq> snd ` set g"
  using assms
proof (induction file_in snap_key keys acc rule: sort_keys_loop.induct)
  case (1 file_in snap_key sort_keys)
  then show ?case by simp
next
  case (2 file_in snap_key keys sort_keys)
  then show ?case by simp
next
  case (3 file_in snap_key key keys sort_keys)
  show ?case
  proof (cases "skip_key (Some key)")
    case True
    with 3 show ?thesis by simp
  next
    case False
    from False "3.prems" obtain a where a: "getitem g key = Inr a"
      and r: "sort_keys_loop file_in snap_key keys (sort_keys @ [a]) = Inr r"
      by (auto split: sum.splits)
    from a have "(key, a) \<in> set g"
      by (auto simp: getitem_def split: option.splits dest: map_of_SomeD)
    then have "a \<in> snd ` set g" by force
    with "3.prems"(3) have "set (sort_keys @ [a]) \<subseteq> snd ` set g" by simp
    from "3.IH"(2) [OF False "3.prems"(2) a r "3.prems"(2) this] show ?thesis .
  qed
qed

lemma get_sort_indices_perm:
  assumes "get_sort_indices file_in snap_key a = Inr indices"
      and "getitem file_in snap_key = Inr g"
      and "getitem g (halo_id a) = Inr ids"
      and "\<forall>field \<in> set g. length (snd field) = length ids"
  shows "length indices = length ids \<and> distinct indices \<and> set indices = {0..<length ids}"
proof -
  from assms(1) obtain sort_keys
    where l: "sort_keys_loop file_in snap_key (rev (sort_fields a)) [] = Inr sort_keys"
      and s: "lexsort sort_keys = Inr indices"
    by (auto simp: get_sort_indices_def split: sum.splits)
  from sort_keys_loop_in_group [OF l assms(2)] have "set sort_keys \<subseteq> snd ` set g"
    by simp
  moreover from lexsort_perm [OF s] have ne: "sort_keys \<noteq> []"
    and p: "length indices = length (hd sort_keys)" "distinct indices"
      "set indices = {0..<length (hd sort_keys)}"
    by simp_all
  ultimately have "hd sort_keys \<in> snd ` set g"
    by (cases sort_keys) auto
  with assms(4) have "length (hd sort_keys) = length ids"
    by auto
  with p show ?thesis by simp
qed

text \<open>
  C8. In a snapshot with records whose fields all have the length \<open>count\<close> of the
  unique-ID field, the index sequence that \<open>get_sort_indices\<close> returns is a
  permutation of \<open>0..count-1\<close>: it has length \<open>count\<close>, no index is repeated, and every
  index of the range occurs.
\<close>

theorem sort_indices_permutation:
  assumes "get_sort_indices file_in snap_key a = Inr indices"
      and "getitem file_in snap_key = Inr g"
      and "getitem g (halo_id a) = Inr ids"
      and "0 < length ids"
      and "\<forall>field \<in> set g. length (snd field) = length ids"
  shows "length indices = length ids \<and> distinct indices \<and> set indices = {0..<length ids}"
proof -
  from assms(1) assms(2) assms(3) assms(5)
  have "length indices = length ids" and "distinct indices"
    and "set indices = {0..<length ids}"
    using get_sort_indices_perm by blast+
  then show ?thesis by simp
qed

theorem sort_indices_permutation_witness:
  "length [1, 2, 0 :: nat] = length [30, 31, 32 :: int] \<and> distinct [1, 2, 0 :: nat]
   \<and> set [1, 2, 0 :: nat] = {0..<length [30, 31, 32 :: int]}"
proof -
  let ?g = "[(''ID'', [30, 31, 32 :: int]), (''ForestID'', [7, 5, 5]), (''Mass'', [1, 2, 3])]"
  let ?a = "\<lparr>sort_fields = [Some ''ForestID'', Some ''Mass''], halo_id = ''ID'',
             ID_fields = [''ID''], index_mult_factor = 10\<rparr>"
  have 1: "get_sort_indices [(''Snap_003'', ?g)] ''Snap_003'' ?a = Inr [1, 2, 0]"
    by code_simp
  have 2: "getitem [(''Snap_003'', ?g)] ''Snap_003'' = Inr ?g"
    by (simp add: getitem_def)
  have 3: "getitem ?g (halo_id ?a) = Inr [30, 31, 32]"
    by (simp add: getitem_def)
  have 4: "0 < length [30, 31, 32 :: int]"
    by simp
  have 5: "\<forall>field \<in> set ?g. length (snd field) = length [30, 31, 32 :: int]"
    by simp
  from sort_indices_permutation [OF 1 2 3 4 5] show ?thesis .
qed

subsection \<open>The table of snapshot 0\<close>

lemma pass1_zero:
  assumes "pass1 a Snap_Keys Snap_Nums f_in = Inr (ID_maps, snapshot_indices)"
  shows "ID_maps 0 = Some [- 1 \<mapsto> - 1]"
  using assms by (auto simp: pass1_def split: sum.splits prod.splits)

lemma lookup_newIDs_KeyError:
  "lookup_newIDs ID_maps zs = Inl e \<Longrightarrow> e = KeyError"
  by (induction ID_maps zs rule: lookup_newIDs.induct)
     (auto simp: dict_getitem_def split: option.splits sum.splits)

lemma lookup_newIDs_missing:
  assumes "(snap, v) \<in> set zs" and "\<forall>d. ID_maps snap = Some d \<longrightarrow> d v = None"
  shows "lookup_newIDs ID_maps zs = Inl KeyError"
proof -
  have "\<exists>e. lookup_newIDs ID_maps zs = Inl e"
    using assms
  proof (induction zs)
    case Nil
    then show ?case by simp
  next
    case (Cons z zs)
    obtain snap' ID where z: "z = (snap', ID)" by (cases z) auto
    show ?case
    proof (cases "z = (snap, v)")
      case True
      with Cons.prems z show ?thesis
        by (auto simp: dict_getitem_def split: option.splits)
    next
      case False
      with Cons obtain e where "lookup_newIDs ID_maps zs = Inl e" by auto
      with z show ?thesis
        by (auto split: sum.splits)
    qed
  qed
  then show ?thesis using lookup_newIDs_KeyError by blast
qed

lemma to_write_missing:
  assumes "getitem f_in key = Inr g" and "getitem g field = Inr oldID"
      and "field \<in> set (ID_fields a)" and "v \<in> set oldID"
      and "\<forall>d. ID_maps (trunc_div v (index_mult_factor a)) = Some d \<longrightarrow> d v = None"
  shows "\<exists>e. to_write a ID_maps f_in key field = Inl e"
proof (cases "index_mult_factor a = 0")
  case True
  with assms show ?thesis by (simp add: to_write_def temporalID_to_snapnum_def)
next
  case False
  have "(trunc_div v (index_mult_factor a), v)
          \<in> set (zip (map (\<lambda>v. trunc_div v (index_mult_factor a)) oldID) oldID)"
    using assms(4) by (auto simp: zip_map1 zip_same_conv_map)
  then have "lookup_newIDs ID_maps
          (zip (map (\<lambda>v. trunc_div v (index_mult_factor a)) oldID) oldID) = Inl KeyError"
    using assms(5) by (rule lookup_newIDs_missing)
  with False assms(1,2,3) show ?thesis
    by (simp add: to_write_def temporalID_to_snapnum_def)
qed

lemma field_loop_fails:
  assumes "field \<in> set fs" and "has_halos a f_in key"
      and "to_write a ID_maps f_in key field = Inl e"
  shows "fst (field_loop a ID_maps si f_in key fs f_out) \<noteq> None"
  using assms(1)
proof (induction fs arbitrary: f_out)
  case Nil
  then show ?case by simp
next
  case (Cons x xs)
  show ?case
  proof (cases "rewrite_field a ID_maps si f_in key x f_out")
    case (Inl e')
    with assms(2) show ?thesis by simp
  next
    case (Inr f_out')
    with assms(3) have "x \<noteq> field" by (auto simp: rewrite_field_def)
    with Cons Inr assms(2) show ?thesis by simp
  qed
qed

lemma key_loop_fails:
  assumes "key \<in> set keys" and "getitem f_in key = Inr g"
      and "\<And>f_out. fst (field_loop a ID_maps si f_in key (map fst g) f_out) \<noteq> None"
  shows "fst (key_loop a ID_maps si f_in keys f_out) \<noteq> None"
  using assms(1)
proof (induction keys arbitrary: f_out)
  case Nil
  then show ?case by simp
next
  case (Cons x xs)
  show ?case
  proof (cases "x = key")
    case True
    with assms(2) obtain f_out1 where c: "copy_group f_in f_out x = Inr f_out1"
      by (simp add: copy_group_def)
    from assms(3) [of f_out1] obtain e f_out2
      where "field_loop a ID_maps si f_in key (map fst g) f_out1 = (Some e, f_out2)"
      by (cases "field_loop a ID_maps si f_in key (map fst g) f_out1") auto
    with True c assms(2) show ?thesis by simp
  next
    case False
    with Cons have IH: "\<And>f_out. fst (key_loop a ID_maps si f_in xs f_out) \<noteq> None"
      by simp
    show ?thesis
      using IH by (auto split: sum.splits prod.splits option.splits)
  qed
qed

lemma trunc_div_decode:
  "decode M v = Inr (s, i) \<Longrightarrow> M \<noteq> 0 \<and> trunc_div v M = s"
  by (auto simp: decode_def split: if_splits)

text \<open>
  C10. When pass 1 completes, the entry of \<open>ID_maps\<close> for the snapshot number \<open>0\<close> is
  exactly the table \<open>{-1: -1}\<close>, so the lookup of an identifier other than \<open>-1\<close> that
  decodes to snapshot \<open>0\<close> raises \<open>KeyError\<close>; and a run on a dataset that holds such
  a value in an identifier field of a group with halos ends with an exception, whatever
  table was built for snapshot \<open>0\<close>.
\<close>

theorem snapshot_zero_lookup_fails:
  assumes "getitem f_in key = Inr g" and "getitem g (halo_id a) = Inr ids" and "ids \<noteq> []"
      and "field \<in> set (ID_fields a)" and "getitem g field = Inr oldID"
      and "v \<in> set oldID" and "v \<noteq> - 1"
      and "decode (index_mult_factor a) v = Inr (0, i)"
  shows "(\<forall>Snap_Keys Snap_Nums ID_maps snapshot_indices.
            pass1 a Snap_Keys Snap_Nums f_in = Inr (ID_maps, snapshot_indices) \<longrightarrow>
              ID_maps 0 = Some [- 1 \<mapsto> - 1]
              \<and> lookup_newIDs ID_maps [(0, v)] = Inl KeyError)
         \<and> fst (sort_and_write_file get_snapkeys_and_nums a f_in) \<noteq> None"
proof
  show "\<forall>Snap_Keys Snap_Nums ID_maps snapshot_indices.
            pass1 a Snap_Keys Snap_Nums f_in = Inr (ID_maps, snapshot_indices) \<longrightarrow>
              ID_maps 0 = Some [- 1 \<mapsto> - 1]
              \<and> lookup_newIDs ID_maps [(0, v)] = Inl KeyError"
    using assms(7) by (auto dest!: pass1_zero simp: dict_getitem_def)
next
  obtain Snap_Keys Snap_Nums
    where R: "get_snapkeys_and_nums (map fst f_in) = (Snap_Keys, Snap_Nums)"
    by (cases "get_snapkeys_and_nums (map fst f_in)") auto
  show "fst (sort_and_write_file get_snapkeys_and_nums a f_in) \<noteq> None"
  proof (cases "pass1 a Snap_Keys Snap_Nums f_in")
    case (Inl e)
    with R show ?thesis by (simp add: sort_and_write_file_def)
  next
    case (Inr st)
    obtain ID_maps si where st: "st = (ID_maps, si)" by (cases st) auto
    from Inr st have z: "ID_maps 0 = Some [- 1 \<mapsto> - 1]" by (auto dest: pass1_zero)
    from trunc_div_decode [OF assms(8)]
    have d: "trunc_div v (index_mult_factor a) = 0" by simp
    have "\<forall>d. ID_maps (trunc_div v (index_mult_factor a)) = Some d \<longrightarrow> d v = None"
      using z d assms(7) by simp
    with assms(1) assms(5) assms(4) assms(6)
    have "\<exists>e. to_write a ID_maps f_in key field = Inl e"
      by (rule to_write_missing)
    then obtain e where e: "to_write a ID_maps f_in key field = Inl e" ..
    have h: "has_halos a f_in key"
      using assms(1,2,3) by (simp add: has_halos_def)
    have fld: "field \<in> set (map fst g)"
      using assms(5) by (auto simp: getitem_def split: option.splits dest!: map_of_SomeD intro: rev_image_eqI)
    have k: "key \<in> set (map fst f_in)"
      using assms(1) by (auto simp: getitem_def split: option.splits dest!: map_of_SomeD intro: rev_image_eqI)
    have "fst (key_loop a ID_maps si f_in (map fst f_in) []) \<noteq> None"
      by (rule key_loop_fails [OF k assms(1)]) (rule field_loop_fails [OF fld h e])
    with R Inr st show ?thesis by (simp add: sort_and_write_file_def)
  qed
qed


theorem snapshot_zero_lookup_fails_witness:
  "(\<exists>ID_maps snapshot_indices.
      pass1 \<lparr>sort_fields = [Some ''ForestID''], halo_id = ''ID'',
              ID_fields = [''ID'', ''Head''], index_mult_factor = 10\<rparr>
        [''Snap_000'', ''Snap_001''] [''Snap_000'' \<mapsto> 0, ''Snap_001'' \<mapsto> 1]
        [(''Snap_000'', [(''ID'', [0, 1]), (''Head'', [10, 10]), (''ForestID'', [7, 5])]),
         (''Snap_001'', [(''ID'', [10]), (''Head'', [- 1]), (''ForestID'', [5])])]
      = Inr (ID_maps, snapshot_indices)
      \<and> ID_maps 0 = Some [- 1 \<mapsto> - 1]
      \<and> lookup_newIDs ID_maps [(0, 1)] = Inl KeyError)
   \<and> fst (sort_and_write_file
            (\<lambda>keys. ([''Snap_000'', ''Snap_001''], [''Snap_000'' \<mapsto> 0, ''Snap_001'' \<mapsto> 1]))
            \<lparr>sort_fields = [Some ''ForestID''], halo_id = ''ID'',
              ID_fields = [''ID'', ''Head''], index_mult_factor = 10\<rparr>
            [(''Snap_000'', [(''ID'', [0, 1]), (''Head'', [10, 10]), (''ForestID'', [7, 5])]),
             (''Snap_001'', [(''ID'', [10]), (''Head'', [- 1]), (''ForestID'', [5])])])
       \<noteq> None"
proof -
  let ?a = "\<lparr>sort_fields = [Some ''ForestID''], halo_id = ''ID'',
              ID_fields = [''ID'', ''Head''], index_mult_factor = 10\<rparr>"
  let ?g = "[(''ID'', [0, 1 :: int]), (''Head'', [10, 10]), (''ForestID'', [7, 5])]"
  let ?f = "[(''Snap_000'', ?g),
             (''Snap_001'', [(''ID'', [10]), (''Head'', [- 1]), (''ForestID'', [5])])]"
  let ?SK = "[''Snap_000'', ''Snap_001'']"
  let ?SN = "[''Snap_000'' \<mapsto> 0 :: int, ''Snap_001'' \<mapsto> 1]"
  have "case pass1 ?a ?SK ?SN ?f of Inl e \<Rightarrow> False | Inr st \<Rightarrow> True"
    by code_simp
  then obtain ID_maps snapshot_indices
    where p: "pass1 ?a ?SK ?SN ?f = Inr (ID_maps, snapshot_indices)"
    by (cases "pass1 ?a ?SK ?SN ?f") auto
  have 1: "getitem ?f ''Snap_000'' = Inr ?g"
    by (simp add: getitem_def)
  have 2: "getitem ?g (halo_id ?a) = Inr [0, 1]"
    by (simp add: getitem_def)
  have 3: "[0, 1 :: int] \<noteq> []"
    by simp
  have 4: "''ID'' \<in> set (ID_fields ?a)"
    by simp
  have 5: "getitem ?g ''ID'' = Inr [0, 1]"
    by (simp add: getitem_def)
  have 6: "(1 :: int) \<in> set [0, 1]"
    by simp
  have 7: "(1 :: int) \<noteq> - 1"
    by simp
  have 8: "decode (index_mult_factor ?a) 1 = Inr (0, 1)"
    by (simp add: decode_def trunc_div_def trunc_rem_def)
  from snapshot_zero_lookup_fails [OF 1 2 3 4 5 6 7 8, of "\<lambda>keys. (?SK, ?SN)"] p
  show ?thesis by blast
qed

subsection \<open>Duplicate halo IDs\<close>

lemma index_to_temporalID_in_range:
  "\<forall>i \<in> set is. i < M \<Longrightarrow> index_to_temporalID is s M = Inr (map (\<lambda>i. s * M + i) is)"
  by (induction "is") (simp_all add: encode_def)

lemma index_to_temporalID_arange:
  assumes "int n \<le> M"
  shows "index_to_temporalID (map int [0..<n]) s M = Inr (map (\<lambda>k. s * M + int k) [0..<n])"
proof -
  have "\<forall>i \<in> set (map int [0..<n]). i < M" using assms by auto
  from index_to_temporalID_in_range [OF this] show ?thesis by (simp add: comp_def)
qed

lemma take_indices_perm:
  "set indices = {0..<length a} \<Longrightarrow> take_indices a indices = Inr (map (\<lambda>i. a ! i) indices)"
  by (simp add: take_indices_def list_all_iff)

lemma set_map_nth_perm:
  assumes "set indices = {0..<length a}"
  shows "set (map (\<lambda>i. a ! i) indices) = set a"
proof -
  have "set (map (\<lambda>i. a ! i) indices) = (\<lambda>i. a ! i) ` {0..<length a}"
    using assms by simp
  also have "\<dots> = set a"
    by (auto simp: set_conv_nth)
  finally show ?thesis .
qed

lemma map_upds_last_wins:
  assumes "k < length ks" and "length vs = length ks"
      and "\<forall>j. k < j \<and> j < length ks \<longrightarrow> ks ! j \<noteq> ks ! k"
  shows "(m(ks [\<mapsto>] vs)) (ks ! k) = Some (vs ! k)"
  using assms
proof (induction ks arbitrary: m vs k)
  case Nil
  then show ?case by simp
next
  case (Cons x xs)
  from Cons.prems(2) obtain y ys where vs: "vs = y # ys" and len: "length ys = length xs"
    by (cases vs) auto
  show ?case
  proof (cases k)
    case 0
    have "x \<notin> set xs"
    proof
      assume "x \<in> set xs"
      then obtain j where "j < length xs" "xs ! j = x" by (auto simp: in_set_conv_nth)
      with Cons.prems(3) 0 show False by (auto dest: spec [of _ "Suc j"])
    qed
    with 0 vs show ?thesis by simp
  next
    case (Suc k')
    have "\<forall>j. k' < j \<and> j < length xs \<longrightarrow> xs ! j \<noteq> xs ! k'"
    proof (intro allI impI)
      fix j assume "k' < j \<and> j < length xs"
      with Cons.prems(3) Suc show "xs ! j \<noteq> xs ! k'" by (auto dest: spec [of _ "Suc j"])
    qed
    then have "((m(x \<mapsto> y))(xs [\<mapsto>] ys)) (xs ! k') = Some (ys ! k')"
      using Cons.prems(1) Suc len by (intro Cons.IH) simp_all
    with Suc vs show ?thesis by simp
  qed
qed

text \<open>
  C3, as the claim states it, fails: the unique-ID field \<open>[10, 10]\<close> holds the same
  value twice, and the run completes without an exception; both records receive the new
  ID \<open>11\<close>.
\<close>

theorem duplicate_ids_counterexample:
  "sort_and_write_file (snapshots_by_table [(''Snap_001'', 1)])
     \<lparr>sort_fields = [Some ''ForestID''], halo_id = ''ID'', ID_fields = [''ID''],
      index_mult_factor = 10\<rparr>
     [(''Snap_001'', [(''ID'', [10, 10]), (''ForestID'', [5, 7])])]
   = (None, [(''Snap_001'', [(''ID'', [11, 11]), (''ForestID'', [5, 7])])])"
  by code_simp

text \<open>
  C3, amended. Duplicates in the unique-ID field are not detected. In a snapshot with
  records whose fields all have the record count as length, whose number is known and
  whose record count does not exceed the multiplier, the table is built whenever the
  sort indices are: its keys are the values of the unique-ID field, each value is
  mapped to the new ID of the last record in sorted order that holds it, and with a
  duplicate the table has fewer entries than the snapshot has records.
\<close>

theorem duplicates_overwrite:
  assumes "get_sort_indices f_in snap_key a = Inr indices"
      and "getitem f_in snap_key = Inr g"
      and "getitem g (halo_id a) = Inr ids"
      and "0 < length ids"
      and "\<forall>field \<in> set g. length (snd field) = length ids"
      and "Snap_Nums snap_key = Some s"
      and "int (length ids) \<le> index_mult_factor a"
  shows "\<exists>d. snapshot_map a Snap_Nums f_in snap_key = Inr (Some (indices, s, d))
           \<and> dom d = set ids
           \<and> (\<not> distinct ids \<longrightarrow> card (dom d) < length ids)
           \<and> (\<forall>k < length ids.
                 (\<forall>j. k < j \<and> j < length ids \<longrightarrow> ids ! (indices ! j) \<noteq> ids ! (indices ! k)) \<longrightarrow>
                 d (ids ! (indices ! k)) = Some (s * index_mult_factor a + int k))"
proof -
  let ?M = "index_mult_factor a"
  let ?olds = "map (\<lambda>i. ids ! i) indices"
  let ?news = "map (\<lambda>k. s * ?M + int k) [0..<length indices]"
  let ?d = "dict_zip ?olds ?news"
  from get_sort_indices_perm [OF assms(1) assms(2) assms(3) assms(5)]
  have len: "length indices = length ids" and set: "set indices = {0..<length ids}"
    by simp_all
  have t: "take_indices ids indices = Inr ?olds"
    using set by (rule take_indices_perm)
  have n: "index_to_temporalID (map int [0..<length indices]) s ?M = Inr ?news"
    using assms(7) len by (simp add: index_to_temporalID_arange)
  have m: "snapshot_map a Snap_Nums f_in snap_key = Inr (Some (indices, s, ?d))"
    using assms(1,2,3,4,6) t n by (simp add: snapshot_map_def dict_getitem_def)
  have olds: "set ?olds = set ids"
    using set by (rule set_map_nth_perm)
  have dom: "dom ?d = set ids"
    using olds by (simp add: dict_zip_def)
  have card: "\<not> distinct ids \<longrightarrow> card (dom ?d) < length ids"
  proof
    assume "\<not> distinct ids"
    then have "card (set ids) \<noteq> length ids" using card_distinct by blast
    moreover have "card (set ids) \<le> length ids" by (rule card_length)
    ultimately show "card (dom ?d) < length ids" using dom by simp
  qed
  have last: "\<forall>k < length ids.
      (\<forall>j. k < j \<and> j < length ids \<longrightarrow> ids ! (indices ! j) \<noteq> ids ! (indices ! k)) \<longrightarrow>
      ?d (ids ! (indices ! k)) = Some (s * ?M + int k)"
  proof (intro allI impI)
    fix k assume k: "k < length ids"
      and later: "\<forall>j. k < j \<and> j < length ids \<longrightarrow> ids ! (indices ! j) \<noteq> ids ! (indices ! k)"
    have 1: "k < length ?olds" using k len by simp
    have 2: "length ?news = length ?olds" by simp
    have 3: "\<forall>j. k < j \<and> j < length ?olds \<longrightarrow> ?olds ! j \<noteq> ?olds ! k"
      using later len k by simp
    from map_upds_last_wins [OF 1 2 3, of Map.empty] k len show
      "?d (ids ! (indices ! k)) = Some (s * ?M + int k)"
      by (simp add: dict_zip_def)
  qed
  from m dom card last show ?thesis by blast
qed

theorem duplicates_overwrite_witness:
  "\<exists>d. snapshot_map
          \<lparr>sort_fields = [Some ''ForestID''], halo_id = ''ID'', ID_fields = [''ID''],
           index_mult_factor = 10\<rparr>
          [''Snap_001'' \<mapsto> 1]
          [(''Snap_001'', [(''ID'', [10, 10]), (''ForestID'', [5, 7])])] ''Snap_001''
        = Inr (Some ([0, 1], 1, d))
      \<and> dom d = {10} \<and> card (dom d) < 2 \<and> d 10 = Some 11"
proof -
  let ?a = "\<lparr>sort_fields = [Some ''ForestID''], halo_id = ''ID'', ID_fields = [''ID''],
             index_mult_factor = 10\<rparr>"
  let ?g = "[(''ID'', [10, 10 :: int]), (''ForestID'', [5, 7])]"
  let ?f = "[(''Snap_001'', ?g)]"
  have 1: "get_sort_indices ?f ''Snap_001'' ?a = Inr [0, 1]"
    by code_simp
  have 2: "getitem ?f ''Snap_001'' = Inr ?g"
    by (simp add: getitem_def)
  have 3: "getitem ?g (halo_id ?a) = Inr [10, 10]"
    by (simp add: getitem_def)
  have 4: "0 < length [10, 10 :: int]"
    by simp
  have 5: "\<forall>field \<in> set ?g. length (snd field) = length [10, 10 :: int]"
    by simp
  have 6: "[''Snap_001'' \<mapsto> 1 :: int] ''Snap_001'' = Some 1"
    by simp
  have 7: "int (length [10, 10 :: int]) \<le> index_mult_factor ?a"
    by simp
  from duplicates_overwrite [where Snap_Nums = "[''Snap_001'' \<mapsto> 1]", OF 1 2 3 4 5 6 7]
  obtain d
    where m: "snapshot_map ?a [''Snap_001'' \<mapsto> 1] ?f ''Snap_001'' = Inr (Some ([0, 1], 1, d))"
      and dom: "dom d = set [10, 10 :: int]"
      and card: "\<not> distinct [10, 10 :: int] \<longrightarrow> card (dom d) < length [10, 10 :: int]"
      and last: "\<forall>k < length [10, 10 :: int].
         (\<forall>j. k < j \<and> j < length [10, 10 :: int] \<longrightarrow>
               [10, 10 :: int] ! ([0, 1] ! j) \<noteq> [10, 10] ! ([0, 1] ! k)) \<longrightarrow>
         d ([10, 10] ! ([0, 1] ! k)) = Some (1 * index_mult_factor ?a + int k)"
    by blast
  have "\<forall>j. 1 < j \<and> j < length [10, 10 :: int] \<longrightarrow>
          [10, 10 :: int] ! ([0, 1] ! j) \<noteq> [10, 10] ! ([0, 1] ! 1)"
    by simp
  moreover have "(1 :: nat) < length [10, 10 :: int]"
    by simp
  ultimately have "d ([10, 10] ! ([0, 1] ! 1)) = Some (1 * index_mult_factor ?a + int 1)"
    using last by blast
  then have "d 10 = Some 11"
    by simp
  with m dom card show ?thesis
    by (intro exI [of _ d]) simp
qed

subsection \<open>The names of the groups in the output file\<close>

lemma write_dataset_keys:
  assumes "write_dataset f key field v = Inr f'"
  shows "map fst f' = map fst f"
proof -
  from assms obtain g where "map_of f key = Some g"
    by (auto simp: write_dataset_def getitem_def split: option.splits sum.splits)
  then have "key \<in> fst ` set f"
    by (auto dest!: map_of_SomeD intro: rev_image_eqI)
  then have "map fst (AList.update key g' f) = map fst f" for g'
    by (simp add: update_keys)
  with assms show ?thesis
    by (auto simp: write_dataset_def split: sum.splits if_splits)
qed

lemma field_loop_keys:
  "map fst (snd (field_loop a ID_maps si f_in key fs f)) = map fst f"
proof (induction fs arbitrary: f)
  case Nil
  then show ?case by simp
next
  case (Cons x xs)
  show ?case
  proof (cases "has_halos a f_in key")
    case False
    with Cons show ?thesis by simp
  next
    case True
    show ?thesis
    proof (cases "rewrite_field a ID_maps si f_in key x f")
      case (Inl e)
      with True show ?thesis by simp
    next
      case (Inr f')
      then have "map fst f' = map fst f"
        by (auto simp: rewrite_field_def split: sum.splits dest: write_dataset_keys)
      with Cons [of f'] True Inr show ?thesis by simp
    qed
  qed
qed

subsection \<open>The output of a run that completes\<close>

lemma cell_update_other:
  "k \<noteq> key \<Longrightarrow> cell (AList.update key g f) k fl = cell f k fl"
  by (simp add: cell_def update_conv')

lemma cell_update_same:
  "cell (AList.update key g f) key fl = map_of g fl"
  by (simp add: cell_def update_conv')

lemma write_dataset_frame:
  assumes "write_dataset f key field v = Inr f'" and "k \<noteq> key \<or> fl \<noteq> field"
  shows "cell f' k fl = cell f k fl"
  using assms
  by (auto simp: write_dataset_def getitem_def cell_def update_conv'
           split: option.splits sum.splits if_splits)

lemma write_dataset_value:
  assumes "write_dataset f key field v = Inr f'" and "cell f key field = Some old"
      and "length v = length old"
  shows "cell f' key field = Some v"
  using assms
  by (auto simp: write_dataset_def getitem_def cell_def update_conv'
           split: option.splits sum.splits if_splits)

lemma rewrite_field_frame:
  assumes "rewrite_field a ID_maps si f_in key field f = Inr f'" and "k \<noteq> key \<or> fl \<noteq> field"
  shows "cell f' k fl = cell f k fl"
  using assms
  by (auto simp: rewrite_field_def split: sum.splits dest: write_dataset_frame)

lemma field_loop_frame:
  assumes "field_loop a ID_maps si f_in key fs f = (r, f')" and "k \<noteq> key \<or> fl \<notin> set fs"
  shows "cell f' k fl = cell f k fl"
  using assms
proof (induction fs arbitrary: f)
  case Nil
  then show ?case by simp
next
  case (Cons x xs)
  show ?case
  proof (cases "has_halos a f_in key")
    case False
    with Cons show ?thesis by simp
  next
    case True
    show ?thesis
    proof (cases "rewrite_field a ID_maps si f_in key x f")
      case (Inl e)
      with True Cons.prems show ?thesis by simp
    next
      case (Inr f1)
      with True Cons.prems have l: "field_loop a ID_maps si f_in key xs f1 = (r, f')"
        by simp
      from Cons.prems(2) have "k \<noteq> key \<or> fl \<noteq> x" and "k \<noteq> key \<or> fl \<notin> set xs"
        by auto
      with Cons.IH [OF l] rewrite_field_frame [OF Inr] show ?thesis by simp
    qed
  qed
qed

lemma field_loop_written:
  assumes "field_loop a ID_maps si f_in key fs f = (None, f')"
      and "has_halos a f_in key" and "distinct fs" and "field \<in> set fs"
      and "cell f key field = Some old"
  shows "\<exists>tw indices v. to_write a ID_maps f_in key field = Inr tw
           \<and> si key = Some indices \<and> take_indices tw indices = Inr v
           \<and> (length v = length old \<longrightarrow> cell f' key field = Some v)"
  using assms(1,3,4,5)
proof (induction fs arbitrary: f)
  case Nil
  then show ?case by simp
next
  case (Cons x xs)
  from Cons.prems(1) assms(2) obtain f1
    where r: "rewrite_field a ID_maps si f_in key x f = Inr f1"
      and l: "field_loop a ID_maps si f_in key xs f1 = (None, f')"
    by (cases "rewrite_field a ID_maps si f_in key x f") auto
  show ?case
  proof (cases "x = field")
    case True
    from r True obtain tw indices v
      where tw: "to_write a ID_maps f_in key field = Inr tw"
        and i: "si key = Some indices" and v: "take_indices tw indices = Inr v"
        and w: "write_dataset f key field v = Inr f1"
      by (auto simp: rewrite_field_def dict_getitem_def split: sum.splits option.splits)
    from Cons.prems(2) True have "field \<notin> set xs" by simp
    with field_loop_frame [OF l, of key field] have "cell f' key field = cell f1 key field"
      by simp
    with write_dataset_value [OF w Cons.prems(4)]
    have "length v = length old \<longrightarrow> cell f' key field = Some v" by simp
    with tw i v show ?thesis by blast
  next
    case False
    with Cons.prems(3) have m: "field \<in> set xs" by simp
    from rewrite_field_frame [OF r, of key field] False Cons.prems(4)
    have "cell f1 key field = Some old" by simp
    with Cons.IH [OF l _ m] Cons.prems(2) show ?thesis by simp
  qed
qed

lemma key_loop_frame:
  assumes "key_loop a ID_maps si f_in keys f = (r, f')" and "k \<notin> set keys"
  shows "cell f' k fl = cell f k fl"
  using assms
proof (induction keys arbitrary: f)
  case Nil
  then show ?case by simp
next
  case (Cons x xs)
  show ?case
  proof (cases "getitem f_in x")
    case (Inl e)
    with Cons.prems show ?thesis by (simp add: copy_group_def)
  next
    case (Inr g)
    let ?f1 = "AList.update x g f"
    from Cons.prems(2) have ne: "k \<noteq> x" and nin: "k \<notin> set xs" by auto
    obtain r2 f2 where fl: "field_loop a ID_maps si f_in x (map fst g) ?f1 = (r2, f2)"
      by (cases "field_loop a ID_maps si f_in x (map fst g) ?f1") auto
    from field_loop_frame [OF fl, of k fl] ne cell_update_other [OF ne]
    have c2: "cell f2 k fl = cell f k fl" by simp
    show ?thesis
    proof (cases r2)
      case None
      with Cons.prems(1) Inr fl have "key_loop a ID_maps si f_in xs f2 = (r, f')"
        by (simp add: copy_group_def)
      from Cons.IH [OF this nin] c2 show ?thesis by simp
    next
      case (Some e)
      with Cons.prems(1) Inr fl have "f' = f2" by (simp add: copy_group_def)
      with c2 show ?thesis by simp
    qed
  qed
qed

lemma key_loop_written:
  assumes "key_loop a ID_maps si f_in keys f = (None, f')"
      and "key \<in> set keys" and "distinct keys"
      and "getitem f_in key = Inr g" and "distinct (map fst g)"
      and "has_halos a f_in key" and "map_of g field = Some old"
  shows "\<exists>tw indices v. to_write a ID_maps f_in key field = Inr tw
           \<and> si key = Some indices \<and> take_indices tw indices = Inr v
           \<and> (length v = length old \<longrightarrow> cell f' key field = Some v)"
  using assms(1,2,3)
proof (induction keys arbitrary: f)
  case Nil
  then show ?case by simp
next
  case (Cons x xs)
  from Cons.prems(1) obtain gx where gx: "getitem f_in x = Inr gx"
    by (cases "getitem f_in x") (auto simp: copy_group_def)
  let ?f1 = "AList.update x gx f"
  from Cons.prems(1) gx obtain f2
    where fl: "field_loop a ID_maps si f_in x (map fst gx) ?f1 = (None, f2)"
      and kl: "key_loop a ID_maps si f_in xs f2 = (None, f')"
    by (cases "field_loop a ID_maps si f_in x (map fst gx) ?f1")
       (auto simp: copy_group_def split: option.splits)
  show ?case
  proof (cases "x = key")
    case True
    with gx assms(4) have eq: "gx = g" by simp
    from assms(7) have fld: "field \<in> set (map fst g)"
      by (auto dest!: map_of_SomeD intro: rev_image_eqI)
    have c1: "cell (AList.update key g f) key field = Some old"
      using assms(7) by (simp add: cell_update_same)
    from fl True eq have fl': "field_loop a ID_maps si f_in key (map fst g) (AList.update key g f) = (None, f2)"
      by simp
    from field_loop_written [OF fl' assms(6) assms(5) fld c1] obtain tw indices v
      where tw: "to_write a ID_maps f_in key field = Inr tw"
        and i: "si key = Some indices" and v: "take_indices tw indices = Inr v"
        and c: "length v = length old \<longrightarrow> cell f2 key field = Some v"
      by blast
    from Cons.prems(3) True have "key \<notin> set xs" by simp
    from key_loop_frame [OF kl this, of field] c
    have "length v = length old \<longrightarrow> cell f' key field = Some v" by simp
    with tw i v show ?thesis by blast
  next
    case False
    with Cons.prems(2,3) have "key \<in> set xs" "distinct xs" by auto
    from Cons.IH [OF kl this] show ?thesis .
  qed
qed

lemma lookup_newIDs_result:
  assumes "lookup_newIDs ID_maps zs = Inr newIDs"
  shows "length newIDs = length zs
         \<and> (\<forall>j < length zs. \<exists>d. ID_maps (fst (zs ! j)) = Some d \<and> d (snd (zs ! j)) = Some (newIDs ! j))"
  using assms
proof (induction zs arbitrary: newIDs)
  case Nil
  then show ?case by simp
next
  case (Cons z zs)
  obtain snap ID where z: "z = (snap, ID)" by (cases z) auto
  from Cons.prems z obtain d newID rest
    where d: "ID_maps snap = Some d" and n: "d ID = Some newID"
      and r: "lookup_newIDs ID_maps zs = Inr rest" and e: "newIDs = newID # rest"
    by (auto simp: dict_getitem_def split: option.splits sum.splits)
  from Cons.IH [OF r] have len: "length rest = length zs"
    and IH: "\<forall>j < length zs. \<exists>d. ID_maps (fst (zs ! j)) = Some d \<and> d (snd (zs ! j)) = Some (rest ! j)"
    by simp_all
  have "\<forall>j < length (z # zs). \<exists>d. ID_maps (fst ((z # zs) ! j)) = Some d
          \<and> d (snd ((z # zs) ! j)) = Some (newIDs ! j)"
  proof (intro allI impI)
    fix j assume "j < length (z # zs)"
    then show "\<exists>d. ID_maps (fst ((z # zs) ! j)) = Some d \<and> d (snd ((z # zs) ! j)) = Some (newIDs ! j)"
      using z d n e IH by (cases j) auto
  qed
  with len e show ?case by simp
qed

lemma to_write_result:
  assumes "to_write a ID_maps f_in key field = Inr tw"
      and "getitem f_in key = Inr g" and "getitem g field = Inr oldID"
      and "field \<in> set (ID_fields a)"
  shows "length tw = length oldID
         \<and> (\<forall>j < length oldID. \<exists>d. ID_maps (trunc_div (oldID ! j) (index_mult_factor a)) = Some d
                \<and> d (oldID ! j) = Some (tw ! j))"
proof -
  let ?M = "index_mult_factor a"
  let ?zs = "zip (map (\<lambda>v. trunc_div v ?M) oldID) oldID"
  from assms have l: "lookup_newIDs ID_maps ?zs = Inr tw"
    by (auto simp: to_write_def temporalID_to_snapnum_def split: if_splits sum.splits)
  from lookup_newIDs_result [OF l] show ?thesis by simp
qed

subsection \<open>The output file after an exception\<close>

lemma rewrite_field_sorted_value:
  "rewrite_field a ID_maps si f_in key field f =
     (case sorted_value a ID_maps si f_in key field of
        Inl e \<Rightarrow> Inl e
      | Inr v \<Rightarrow> write_dataset f key field v)"
  by (simp add: rewrite_field_def sorted_value_def split: sum.splits)

lemma write_dataset_ok:
  assumes "write_dataset f key field v = Inr f'" and "cell f key field = Some old"
  shows "cell f' key field = Some (written_value old v)"
  using assms
  by (auto simp: write_dataset_def getitem_def cell_def update_conv' written_value_def
           split: option.splits sum.splits if_splits)

lemma write_dataset_error:
  assumes "write_dataset f key field v = Inl e" and "cell f key field = Some old"
  shows "e = TypeError \<and> length v \<noteq> length old \<and> length v \<noteq> 1"
  using assms
  by (auto simp: write_dataset_def getitem_def cell_def
           split: option.splits sum.splits if_splits)

lemma field_loop_no_halos:
  "\<not> has_halos a f_in key \<Longrightarrow> field_loop a ID_maps si f_in key fs f = (None, f)"
  by (induction fs) simp_all

lemma cell_input:
  "getitem f_in key = Inr g \<Longrightarrow> cell f_in key fl = map_of g fl"
  by (auto simp: getitem_def cell_def split: option.splits)

lemma field_loop_trace:
  assumes "field_loop a ID_maps si f_in key fs f = (r, f')"
      and "has_halos a f_in key" and "distinct fs"
      and "\<forall>fl \<in> set fs. cell f key fl = cell f_in key fl \<and> cell f_in key fl \<noteq> None"
  shows "(r = None \<longrightarrow> (\<forall>fl \<in> set fs. cell f' key fl = field_result a ID_maps si f_in key fl))
         \<and> (\<forall>e. r = Some e \<longrightarrow>
              (\<exists>fs1 field fs2. fs = fs1 @ field # fs2
                 \<and> field_raises a ID_maps si f_in key field e
                 \<and> (\<forall>fl \<in> set fs1. cell f' key fl = field_result a ID_maps si f_in key fl)
                 \<and> (\<forall>fl. fl \<notin> set fs1 \<longrightarrow> cell f' key fl = cell f key fl)))"
  using assms(1,3,4)
proof (induction fs arbitrary: f)
  case Nil
  then show ?case by simp
next
  case (Cons x xs)
  from Cons.prems(3) obtain old where cx: "cell f key x = Some old"
    and cin: "cell f_in key x = Some old"
    by auto
  show ?case
  proof (cases "sorted_value a ID_maps si f_in key x")
    case (Inl e)
    with Cons.prems(1) assms(2) have r: "r = Some e" and f': "f' = f"
      by (simp_all add: rewrite_field_sorted_value)
    from Inl have "field_raises a ID_maps si f_in key x e"
      by (simp add: field_raises_def)
    with r f' have "\<exists>fs1 field fs2. x # xs = fs1 @ field # fs2
                 \<and> field_raises a ID_maps si f_in key field e
                 \<and> (\<forall>fl \<in> set fs1. cell f' key fl = field_result a ID_maps si f_in key fl)
                 \<and> (\<forall>fl. fl \<notin> set fs1 \<longrightarrow> cell f' key fl = cell f key fl)"
      by (intro exI [of _ "[]"] exI [of _ x] exI [of _ xs]) simp
    with r show ?thesis by simp
  next
    case (Inr v)
    show ?thesis
    proof (cases "write_dataset f key x v")
      case (Inl e)
      with Inr Cons.prems(1) assms(2) have r: "r = Some e" and f': "f' = f"
        by (simp_all add: rewrite_field_sorted_value)
      from write_dataset_error [OF Inl cx] Inr cin
      have "field_raises a ID_maps si f_in key x e"
        by (auto simp: field_raises_def)
      with r f' have "\<exists>fs1 field fs2. x # xs = fs1 @ field # fs2
                 \<and> field_raises a ID_maps si f_in key field e
                 \<and> (\<forall>fl \<in> set fs1. cell f' key fl = field_result a ID_maps si f_in key fl)
                 \<and> (\<forall>fl. fl \<notin> set fs1 \<longrightarrow> cell f' key fl = cell f key fl)"
        by (intro exI [of _ "[]"] exI [of _ x] exI [of _ xs]) simp
      with r show ?thesis by simp
    next
      case w: (Inr f1)
      with Inr Cons.prems(1) assms(2)
      have l: "field_loop a ID_maps si f_in key xs f1 = (r, f')"
        by (simp add: rewrite_field_sorted_value)
      from write_dataset_ok [OF w cx] Inr cin assms(2)
      have c1: "cell f1 key x = field_result a ID_maps si f_in key x"
        by (simp add: field_result_def)
      have fr: "\<And>fl. fl \<noteq> x \<Longrightarrow> cell f1 key fl = cell f key fl"
        using write_dataset_frame [OF w] by simp
      from Cons.prems(2) have dx: "x \<notin> set xs" and dxs: "distinct xs" by simp_all
      have pre: "\<forall>fl \<in> set xs. cell f1 key fl = cell f_in key fl \<and> cell f_in key fl \<noteq> None"
      proof
        fix fl assume m: "fl \<in> set xs"
        with dx have "fl \<noteq> x" by auto
        then have "cell f1 key fl = cell f key fl" by (rule fr)
        moreover from m Cons.prems(3)
        have "cell f key fl = cell f_in key fl \<and> cell f_in key fl \<noteq> None" by simp
        ultimately show "cell f1 key fl = cell f_in key fl \<and> cell f_in key fl \<noteq> None"
          by simp
      qed
      from Cons.IH [OF l dxs pre]
      have ok: "r = None \<longrightarrow> (\<forall>fl \<in> set xs. cell f' key fl = field_result a ID_maps si f_in key fl)"
        and bad: "\<forall>e. r = Some e \<longrightarrow>
              (\<exists>fs1 field fs2. xs = fs1 @ field # fs2
                 \<and> field_raises a ID_maps si f_in key field e
                 \<and> (\<forall>fl \<in> set fs1. cell f' key fl = field_result a ID_maps si f_in key fl)
                 \<and> (\<forall>fl. fl \<notin> set fs1 \<longrightarrow> cell f' key fl = cell f1 key fl))"
        by simp_all
      have 1: "r = None \<longrightarrow>
                 (\<forall>fl \<in> set (x # xs). cell f' key fl = field_result a ID_maps si f_in key fl)"
      proof
        assume "r = None"
        with ok have "\<forall>fl \<in> set xs. cell f' key fl = field_result a ID_maps si f_in key fl"
          by simp
        moreover from field_loop_frame [OF l, of key x] dx c1
        have "cell f' key x = field_result a ID_maps si f_in key x" by simp
        ultimately show "\<forall>fl \<in> set (x # xs). cell f' key fl = field_result a ID_maps si f_in key fl"
          by simp
      qed
      have 2: "\<forall>e. r = Some e \<longrightarrow>
              (\<exists>fs1 field fs2. x # xs = fs1 @ field # fs2
                 \<and> field_raises a ID_maps si f_in key field e
                 \<and> (\<forall>fl \<in> set fs1. cell f' key fl = field_result a ID_maps si f_in key fl)
                 \<and> (\<forall>fl. fl \<notin> set fs1 \<longrightarrow> cell f' key fl = cell f key fl))"
      proof (intro allI impI)
        fix e assume "r = Some e"
        with bad obtain fs1 field fs2 where xs: "xs = fs1 @ field # fs2"
          and fr': "field_raises a ID_maps si f_in key field e"
          and dn: "\<forall>fl \<in> set fs1. cell f' key fl = field_result a ID_maps si f_in key fl"
          and rest: "\<forall>fl. fl \<notin> set fs1 \<longrightarrow> cell f' key fl = cell f1 key fl"
          by blast
        from dx xs have "x \<notin> set fs1" by simp
        with rest c1 have "cell f' key x = field_result a ID_maps si f_in key x" by simp
        with dn have d': "\<forall>fl \<in> set (x # fs1). cell f' key fl = field_result a ID_maps si f_in key fl"
          by simp
        have r': "\<forall>fl. fl \<notin> set (x # fs1) \<longrightarrow> cell f' key fl = cell f key fl"
          using rest fr by simp
        from xs fr' d' r'
        show "\<exists>fs1 field fs2. x # xs = fs1 @ field # fs2
                 \<and> field_raises a ID_maps si f_in key field e
                 \<and> (\<forall>fl \<in> set fs1. cell f' key fl = field_result a ID_maps si f_in key fl)
                 \<and> (\<forall>fl. fl \<notin> set fs1 \<longrightarrow> cell f' key fl = cell f key fl)"
          by (intro exI [of _ "x # fs1"] exI [of _ field] exI [of _ fs2]) simp
      qed
      from 1 2 show ?thesis by blast
    qed
  qed
qed

lemma field_result_absent:
  assumes "cell f_in key fl = None"
  shows "field_result a ID_maps si f_in key fl = None"
  using assms by (simp add: field_result_def split: sum.splits)

lemma group_processed:
  assumes "field_loop a ID_maps si f_in key (map fst g) (AList.update key g f) = (None, f2)"
      and "getitem f_in key = Inr g" and "distinct (map fst g)"
  shows "cell f2 key fl = field_result a ID_maps si f_in key fl"
proof (cases "has_halos a f_in key")
  case False
  with assms(1) have "f2 = AList.update key g f"
    by (simp add: field_loop_no_halos)
  with False assms(2) show ?thesis
    by (simp add: field_result_def cell_update_same cell_input)
next
  case True
  show ?thesis
  proof (cases "fl \<in> set (map fst g)")
    case True
    have pre: "\<forall>fl \<in> set (map fst g).
        cell (AList.update key g f) key fl = cell f_in key fl \<and> cell f_in key fl \<noteq> None"
      using assms(2) by (auto simp: cell_update_same cell_input map_of_eq_None_iff)
    from field_loop_trace [OF assms(1) \<open>has_halos a f_in key\<close> assms(3) pre]
    have "\<forall>fl \<in> set (map fst g). cell f2 key fl = field_result a ID_maps si f_in key fl"
      by blast
    with True show ?thesis by blast
  next
    case False
    then have n: "map_of g fl = None" by (simp add: map_of_eq_None_iff)
    from field_loop_frame [OF assms(1), of key fl] False
    have "cell f2 key fl = cell (AList.update key g f) key fl" by simp
    with n have "cell f2 key fl = None" by (simp add: cell_update_same)
    moreover from n assms(2) have "cell f_in key fl = None" by (simp add: cell_input)
    ultimately show ?thesis by (simp add: field_result_absent)
  qed
qed

lemma key_loop_trace:
  assumes "key_loop a ID_maps si f_in keys f = (Some e, f')"
      and "set keys \<subseteq> fst ` set f_in" and "distinct keys"
      and "set keys \<inter> fst ` set f = {}"
      and "\<forall>grp \<in> set f_in. distinct (map fst (snd grp))"
  shows "\<exists>ks key rest g fs field rest_fields.
           keys = ks @ key # rest
           \<and> getitem f_in key = Inr g \<and> map fst g = fs @ field # rest_fields
           \<and> has_halos a f_in key \<and> field_raises a ID_maps si f_in key field e
           \<and> map fst f' = map fst f @ ks @ [key]
           \<and> (\<forall>k fl. cell f' k fl =
                 (if k \<in> set ks then field_result a ID_maps si f_in k fl
                  else if k = key
                  then (if fl \<in> set fs then field_result a ID_maps si f_in key fl
                        else cell f_in key fl)
                  else cell f k fl))"
  using assms(1,2,3,4)
proof (induction keys arbitrary: f)
  case Nil
  then show ?case by simp
next
  case (Cons x xs)
  from Cons.prems(2) obtain g where g: "getitem f_in x = Inr g"
    by (cases "map_of f_in x") (auto simp: getitem_def map_of_eq_None_iff)
  then have "(x, g) \<in> set f_in"
    by (auto simp: getitem_def split: option.splits dest: map_of_SomeD)
  with assms(5) have dg: "distinct (map fst g)" by auto
  let ?f1 = "AList.update x g f"
  have c: "copy_group f_in f x = Inr ?f1"
    using g by (simp add: copy_group_def)
  from Cons.prems(4) have xf: "x \<notin> fst ` set f" by auto
  then have k1: "map fst ?f1 = map fst f @ [x]"
    by (simp add: update_keys)
  obtain r f2 where fl: "field_loop a ID_maps si f_in x (map fst g) ?f1 = (r, f2)"
    by (cases "field_loop a ID_maps si f_in x (map fst g) ?f1") auto
  from field_loop_keys [of a ID_maps si f_in x "map fst g" ?f1] fl k1
  have k2: "map fst f2 = map fst f @ [x]" by simp
  have other: "\<And>k fl. k \<noteq> x \<Longrightarrow> cell f2 k fl = cell f k fl"
    using field_loop_frame [OF fl] by (simp add: cell_update_other)
  show ?case
  proof (cases r)
    case (Some e')
    with Cons.prems(1) c g fl have e': "e' = e" and f': "f' = f2" by simp_all
    have h: "has_halos a f_in x"
    proof (rule ccontr)
      assume "\<not> has_halos a f_in x"
      with fl Some show False by (simp add: field_loop_no_halos)
    qed
    have pre: "\<forall>fl \<in> set (map fst g).
        cell ?f1 x fl = cell f_in x fl \<and> cell f_in x fl \<noteq> None"
      using g by (auto simp: cell_update_same cell_input map_of_eq_None_iff)
    from field_loop_trace [OF fl h dg pre] Some e'
    obtain fs1 field fs2 where sp: "map fst g = fs1 @ field # fs2"
      and fr: "field_raises a ID_maps si f_in x field e"
      and dn: "\<forall>fl \<in> set fs1. cell f2 x fl = field_result a ID_maps si f_in x fl"
      and rs: "\<forall>fl. fl \<notin> set fs1 \<longrightarrow> cell f2 x fl = cell ?f1 x fl"
      by blast
    have cells: "\<forall>k fl. cell f' k fl =
                 (if k \<in> set [] then field_result a ID_maps si f_in k fl
                  else if k = x
                  then (if fl \<in> set fs1 then field_result a ID_maps si f_in x fl
                        else cell f_in x fl)
                  else cell f k fl)"
      using f' dn rs other g by (simp add: cell_update_same cell_input)
    from g sp h fr k2 f' cells show ?thesis
      by (intro exI [of _ "[]"] exI [of _ x] exI [of _ xs] exI [of _ g]
                exI [of _ fs1] exI [of _ field] exI [of _ fs2]) simp
  next
    case None
    with Cons.prems(1) c g fl have kl: "key_loop a ID_maps si f_in xs f2 = (Some e, f')"
      by simp
    from Cons.prems(3) have dx: "x \<notin> set xs" and dxs: "distinct xs" by simp_all
    have "set (map fst f2) = set (map fst f @ [x])"
      using k2 by simp
    then have "fst ` set f2 = insert x (fst ` set f)"
      by simp
    with Cons.prems(4) dx have disj: "set xs \<inter> fst ` set f2 = {}" by auto
    from Cons.prems(2) have sub: "set xs \<subseteq> fst ` set f_in" by simp
    from Cons.IH [OF kl sub dxs disj]
    obtain ks key rest gk fs field rest_fields
      where sp: "xs = ks @ key # rest"
        and gk: "getitem f_in key = Inr gk" and fsp: "map fst gk = fs @ field # rest_fields"
        and h: "has_halos a f_in key" and fr: "field_raises a ID_maps si f_in key field e"
        and keys: "map fst f' = map fst f2 @ ks @ [key]"
        and cells: "\<forall>k fl. cell f' k fl =
                 (if k \<in> set ks then field_result a ID_maps si f_in k fl
                  else if k = key
                  then (if fl \<in> set fs then field_result a ID_maps si f_in key fl
                        else cell f_in key fl)
                  else cell f2 k fl)"
      by blast
    from dx sp have xk: "x \<notin> set ks" "x \<noteq> key" by auto
    from fl None have flN: "field_loop a ID_maps si f_in x (map fst g) ?f1 = (None, f2)"
      by simp
    have px: "\<And>fl. cell f2 x fl = field_result a ID_maps si f_in x fl"
      using flN g dg by (rule group_processed)
    have cells': "\<forall>k fl. cell f' k fl =
                 (if k \<in> set (x # ks) then field_result a ID_maps si f_in k fl
                  else if k = key
                  then (if fl \<in> set fs then field_result a ID_maps si f_in key fl
                        else cell f_in key fl)
                  else cell f k fl)"
    proof (intro allI)
      fix k fl
      show "cell f' k fl =
                 (if k \<in> set (x # ks) then field_result a ID_maps si f_in k fl
                  else if k = key
                  then (if fl \<in> set fs then field_result a ID_maps si f_in key fl
                        else cell f_in key fl)
                  else cell f k fl)"
      proof (cases "k = x")
        case True
        with cells xk px show ?thesis by simp
      next
        case False
        with cells other show ?thesis by simp
      qed
    qed
    from sp have sp': "x # xs = (x # ks) @ key # rest" by simp
    from keys k2 have keys': "map fst f' = map fst f @ (x # ks) @ [key]" by simp
    from sp' gk fsp h fr keys' cells' show ?thesis
      by (intro exI [of _ "x # ks"] exI [of _ key] exI [of _ rest] exI [of _ gk]
                exI [of _ fs] exI [of _ field] exI [of _ rest_fields]) simp
  qed
qed

text \<open>
  C9, as the claim states it, fails: the identifier \<open>35\<close> in the last field of the first
  snapshot refers to a snapshot that has no table, and the run ends with \<open>KeyError\<close>.
  The output file is left with the first group only; in it the fields \<open>ForestID\<close> and
  \<open>Mass\<close> are in sorted order and the field \<open>Head\<close> is as it was copied.
\<close>

theorem partial_output_counterexample:
  "sort_and_write_file (snapshots_by_table [(''Snap_001'', 1), (''Snap_002'', 2)])
     \<lparr>sort_fields = [Some ''ForestID''], halo_id = ''ID'', ID_fields = [''ID'', ''Head''],
      index_mult_factor = 10\<rparr>
     [(''Snap_001'',
       [(''ID'', [10, 11]), (''ForestID'', [7, 5]), (''Mass'', [1, 2]), (''Head'', [35, - 1])]),
      (''Snap_002'', [(''ID'', [20]), (''ForestID'', [5]), (''Mass'', [3]), (''Head'', [- 1])])]
   = (Some KeyError,
      [(''Snap_001'',
        [(''ID'', [10, 11]), (''ForestID'', [5, 7]), (''Mass'', [2, 1]), (''Head'', [35, - 1])])])"
  by code_simp

text \<open>
  C9, amended. An exception ends the run without any rollback of the output file. If it
  is raised while the dictionaries are built, the output file has been created and holds
  no group. If it is raised while the fields are rewritten, it is raised by one field
  of one group with halos, and the output file holds exactly the groups of the input up
  to and including that group: in the groups before it every array holds the result of
  its processing, in that group the fields before the failing one hold the result of
  their processing and the failing field and the fields after it hold the copy of the
  input arrays, and no later group is in the file.
\<close>

theorem failed_run_output:
  assumes "sort_and_write_file get_snapkeys_and_nums a f_in = (Some e, f_out)"
      and "distinct (map fst f_in)"
      and "\<forall>grp \<in> set f_in. distinct (map fst (snd grp))"
      and "get_snapkeys_and_nums (map fst f_in) = (Snap_Keys, Snap_Nums)"
  shows "(pass1 a Snap_Keys Snap_Nums f_in = Inl e \<and> f_out = [])
         \<or> (\<exists>ID_maps si ks key rest g fs field rest_fields.
               pass1 a Snap_Keys Snap_Nums f_in = Inr (ID_maps, si)
               \<and> map fst f_in = ks @ key # rest
               \<and> getitem f_in key = Inr g \<and> map fst g = fs @ field # rest_fields
               \<and> has_halos a f_in key
               \<and> (sorted_value a ID_maps si f_in key field = Inl e
                   \<or> (\<exists>v old. sorted_value a ID_maps si f_in key field = Inr v
                          \<and> cell f_in key field = Some old
                          \<and> length v \<noteq> length old \<and> length v \<noteq> 1 \<and> e = TypeError))
               \<and> map fst f_out = ks @ [key]
               \<and> (\<forall>k fl. cell f_out k fl =
                     (if k \<in> set ks then field_result a ID_maps si f_in k fl
                      else if k = key
                      then (if fl \<in> set fs then field_result a ID_maps si f_in key fl
                            else cell f_in key fl)
                      else None)))"
proof (cases "pass1 a Snap_Keys Snap_Nums f_in")
  case (Inl e')
  with assms(1,4) show ?thesis by (simp add: sort_and_write_file_def)
next
  case (Inr st)
  obtain ID_maps si where st: "st = (ID_maps, si)" by (cases st) auto
  from Inr st assms(1,4)
  have k: "key_loop a ID_maps si f_in (map fst f_in) [] = (Some e, f_out)"
    by (simp add: sort_and_write_file_def)
  have sub: "set (map fst f_in) \<subseteq> fst ` set f_in" by simp
  have disj: "set (map fst f_in) \<inter> fst ` set ([] :: int h5file) = {}" by simp
  from key_loop_trace [OF k sub assms(2) disj assms(3)]
  obtain ks key rest g fs field rest_fields
    where "map fst f_in = ks @ key # rest"
      and "getitem f_in key = Inr g" and "map fst g = fs @ field # rest_fields"
      and "has_halos a f_in key" and "field_raises a ID_maps si f_in key field e"
      and "map fst f_out = map fst ([] :: int h5file) @ ks @ [key]"
      and "\<forall>k fl. cell f_out k fl =
                 (if k \<in> set ks then field_result a ID_maps si f_in k fl
                  else if k = key
                  then (if fl \<in> set fs then field_result a ID_maps si f_in key fl
                        else cell f_in key fl)
                  else cell [] k fl)"
    by blast
  with Inr st show ?thesis
    unfolding field_raises_def
    by (intro disjI2 exI [of _ ID_maps] exI [of _ si] exI [of _ ks] exI [of _ key]
              exI [of _ rest] exI [of _ g] exI [of _ fs] exI [of _ field]
              exI [of _ rest_fields])
       (simp add: cell_def)
qed

theorem failed_run_output_witness:
  "\<exists>ID_maps si g fs field rest_fields.
     pass1 \<lparr>sort_fields = [Some ''ForestID''], halo_id = ''ID'',
             ID_fields = [''ID'', ''Head''], index_mult_factor = 10\<rparr>
       [''Snap_001'', ''Snap_002''] (map_of [(''Snap_001'', 1), (''Snap_002'', 2)])
       [(''Snap_001'', [(''ID'', [10, 11]), (''ForestID'', [7, 5]), (''Head'', [35, - 1])]),
        (''Snap_002'', [(''ID'', [20]), (''ForestID'', [5]), (''Head'', [- 1])])]
     = Inr (ID_maps, si)
     \<and> getitem
          [(''Snap_001'', [(''ID'', [10, 11 :: int]), (''ForestID'', [7, 5]), (''Head'', [35, - 1])]),
           (''Snap_002'', [(''ID'', [20]), (''ForestID'', [5]), (''Head'', [- 1])])]
          ''Snap_001'' = Inr g
     \<and> map fst g = fs @ field # rest_fields
     \<and> (\<forall>fl. cell [(''Snap_001'',
                       [(''ID'', [10, 11 :: int]), (''ForestID'', [5, 7]), (''Head'', [35, - 1])])]
                ''Snap_001'' fl =
              (if fl \<in> set fs
               then field_result
                      \<lparr>sort_fields = [Some ''ForestID''], halo_id = ''ID'',
                        ID_fields = [''ID'', ''Head''], index_mult_factor = 10\<rparr>
                      ID_maps si
                      [(''Snap_001'', [(''ID'', [10, 11]), (''ForestID'', [7, 5]), (''Head'', [35, - 1])]),
                       (''Snap_002'', [(''ID'', [20]), (''ForestID'', [5]), (''Head'', [- 1])])]
                      ''Snap_001'' fl
               else cell
                      [(''Snap_001'', [(''ID'', [10, 11]), (''ForestID'', [7, 5]), (''Head'', [35, - 1])]),
                       (''Snap_002'', [(''ID'', [20]), (''ForestID'', [5]), (''Head'', [- 1])])]
                      ''Snap_001'' fl))"
proof -
  let ?a = "\<lparr>sort_fields = [Some ''ForestID''], halo_id = ''ID'',
             ID_fields = [''ID'', ''Head''], index_mult_factor = 10\<rparr>"
  let ?f = "[(''Snap_001'', [(''ID'', [10, 11 :: int]), (''ForestID'', [7, 5]), (''Head'', [35, - 1])]),
             (''Snap_002'', [(''ID'', [20]), (''ForestID'', [5]), (''Head'', [- 1])])]"
  let ?out = "[(''Snap_001'',
                [(''ID'', [10, 11 :: int]), (''ForestID'', [5, 7]), (''Head'', [35, - 1])])]"
  let ?table = "[(''Snap_001'', 1 :: int), (''Snap_002'', 2)]"
  have 1: "sort_and_write_file (snapshots_by_table ?table) ?a ?f = (Some KeyError, ?out)"
    by code_simp
  have 2: "distinct (map fst ?f)"
    by simp
  have 3: "\<forall>grp \<in> set ?f. distinct (map fst (snd grp))"
    by simp
  have 4: "snapshots_by_table ?table (map fst ?f) = ([''Snap_001'', ''Snap_002''], map_of ?table)"
    by (simp add: snapshots_by_table_def)
  have ne: "?out \<noteq> []"
    by simp
  from failed_run_output [OF 1 2 3 4] ne
  obtain ID_maps si ks key rest g fs field rest_fields
    where p: "pass1 ?a [''Snap_001'', ''Snap_002''] (map_of ?table) ?f = Inr (ID_maps, si)"
      and g: "getitem ?f key = Inr g" and sp: "map fst g = fs @ field # rest_fields"
      and k: "map fst ?out = ks @ [key]"
      and c: "\<forall>k fl. cell ?out k fl =
                (if k \<in> set ks then field_result ?a ID_maps si ?f k fl
                 else if k = key
                 then (if fl \<in> set fs then field_result ?a ID_maps si ?f key fl
                       else cell ?f key fl)
                 else None)"
    by blast
  from k have ks: "ks = []" and key: "key = ''Snap_001''"
    by (cases ks; simp)+
  from c ks key
  have "\<forall>fl. cell ?out ''Snap_001'' fl =
          (if fl \<in> set fs then field_result ?a ID_maps si ?f ''Snap_001'' fl
           else cell ?f ''Snap_001'' fl)"
    by (metis empty_iff list.set(1))
  with p g sp key show ?thesis
    by blast
qed

subsection \<open>What the first loop leaves in the dictionaries\<close>

lemma index_to_temporalID_result:
  assumes "index_to_temporalID is s M = Inr vs"
  shows "(\<forall>i \<in> set is. i < M) \<and> vs = map (\<lambda>i. s * M + i) is"
  using assms
  by (induction "is" arbitrary: vs) (auto simp: encode_def split: if_splits sum.splits)

lemma map_upds_value:
  assumes "(m(ks [\<mapsto>] vs)) v = Some w"
  shows "m v = Some w \<or> w \<in> set vs"
proof (cases "map_of (rev (zip ks vs)) v")
  case None
  with assms show ?thesis by (simp add: map_upds_def map_add_def)
next
  case (Some w')
  with assms have "w' = w" by (simp add: map_upds_def map_add_def)
  with Some have "(v, w) \<in> set (zip ks vs)" by (auto dest: map_of_SomeD)
  then show ?thesis by (auto dest: set_zip_rightD)
qed

lemma snapshot_map_result:
  assumes "snapshot_map a Snap_Nums f_in k = Inr (Some (indices, s, d))"
  shows "snapshot_inv a f_in k indices \<and> table_inv a s d"
proof -
  let ?M = "index_mult_factor a"
  from assms obtain olds news
    where g: "get_sort_indices f_in k a = Inr indices"
      and n: "index_to_temporalID (map int [0..<length indices]) s ?M = Inr news"
      and d: "d = dict_zip olds news"
    by (auto simp: snapshot_map_def split: sum.splits if_splits)
  from index_to_temporalID_result [OF n]
  have r: "\<forall>j < length indices. int j < ?M"
    and news: "news = map (\<lambda>i. s * ?M + i) (map int [0..<length indices])"
    by simp_all
  have "table_inv a s d"
    unfolding table_inv_def
  proof (intro allI impI)
    fix v w assume "d v = Some w"
    with d have "w \<in> set news"
      by (auto simp: dict_zip_def dest: map_upds_value)
    with news obtain j where "j < length indices" "w = s * ?M + int j" by auto
    moreover from this r have "int j < ?M" by simp
    ultimately show "\<exists>k. 0 \<le> k \<and> k < ?M \<and> w = s * ?M + k"
      by (intro exI [of _ "int j"]) simp
  qed
  with g r show ?thesis by (simp add: snapshot_inv_def)
qed

lemma pass1_loop_inv:
  assumes "pass1_loop a Snap_Nums f_in keys (ID_maps, si) = Inr (ID_maps', si')"
      and "\<forall>k indices. si k = Some indices \<longrightarrow> snapshot_inv a f_in k indices"
      and "\<forall>s d. ID_maps s = Some d \<longrightarrow> table_inv a s d"
  shows "(\<forall>k indices. si' k = Some indices \<longrightarrow> snapshot_inv a f_in k indices)
         \<and> (\<forall>s d. ID_maps' s = Some d \<longrightarrow> table_inv a s d)"
  using assms
proof (induction keys arbitrary: ID_maps si)
  case Nil
  then show ?case by simp
next
  case (Cons x xs)
  show ?case
  proof (cases "snapshot_map a Snap_Nums f_in x")
    case (Inl e)
    with Cons.prems show ?thesis by simp
  next
    case (Inr res)
    show ?thesis
    proof (cases res)
      case None
      with Inr Cons.prems have "pass1_loop a Snap_Nums f_in xs (ID_maps, si) = Inr (ID_maps', si')"
        by simp
      from Cons.IH [OF this Cons.prems(2) Cons.prems(3)] show ?thesis .
    next
      case (Some t)
      obtain indices snapnum d where t: "t = (indices, snapnum, d)" by (cases t) auto
      with Inr Some Cons.prems
      have l: "pass1_loop a Snap_Nums f_in xs (ID_maps(snapnum \<mapsto> d), si(x \<mapsto> indices))
                 = Inr (ID_maps', si')"
        by simp
      from Inr Some t have "snapshot_map a Snap_Nums f_in x = Inr (Some (indices, snapnum, d))"
        by simp
      from snapshot_map_result [OF this]
      have i: "snapshot_inv a f_in x indices" and tb: "table_inv a snapnum d"
        by simp_all
      from i Cons.prems(2)
      have 1: "\<forall>k idx. (si(x \<mapsto> indices)) k = Some idx \<longrightarrow> snapshot_inv a f_in k idx"
        by simp
      from tb Cons.prems(3)
      have 2: "\<forall>s d'. (ID_maps(snapnum \<mapsto> d)) s = Some d' \<longrightarrow> table_inv a s d'"
        by simp
      from Cons.IH [OF l 1 2] show ?thesis .
    qed
  qed
qed

lemma pass1_inv:
  assumes "pass1 a Snap_Keys Snap_Nums f_in = Inr (ID_maps, si)"
  shows "(\<forall>k indices. si k = Some indices \<longrightarrow> snapshot_inv a f_in k indices)
         \<and> ID_maps 0 = Some [- 1 \<mapsto> - 1]
         \<and> (\<forall>s d. s \<noteq> 0 \<and> ID_maps s = Some d \<longrightarrow> table_inv a s d)"
proof -
  from assms obtain ID_maps0
    where l: "pass1_loop a Snap_Nums f_in Snap_Keys (Map.empty, Map.empty) = Inr (ID_maps0, si)"
      and e: "ID_maps = ID_maps0(0 \<mapsto> [- 1 \<mapsto> - 1])"
    by (auto simp: pass1_def split: sum.splits prod.splits)
  from pass1_loop_inv [OF l] e show ?thesis by simp
qed

subsection \<open>The sentinel\<close>

lemma trunc_div_sentinel: "2 \<le> M \<Longrightarrow> trunc_div (- 1) M = 0"
  by (simp add: trunc_div_def)

lemma sentinel_lookup:
  assumes "ID_maps 0 = Some [- 1 \<mapsto> - 1]"
      and "\<forall>s d. s \<noteq> 0 \<and> ID_maps s = Some d \<longrightarrow> table_inv a s d"
      and "0 < index_mult_factor a"
      and "ID_maps (trunc_div (- 1) (index_mult_factor a)) = Some d"
      and "d (- 1) = Some w"
  shows "w = - 1"
proof (cases "2 \<le> index_mult_factor a")
  case True
  from assms(1,4) trunc_div_sentinel [OF True] have "d = [- 1 \<mapsto> - 1]" by simp
  then have "d (- 1) = Some (- 1)" by simp
  with assms(5) show ?thesis by simp
next
  case False
  with assms(3) have M: "index_mult_factor a = 1" by simp
  then have s: "trunc_div (- 1) (index_mult_factor a) = - 1" by (simp add: trunc_div_def)
  with assms(2,4) have "table_inv a (- 1) d" by simp
  with assms(5) M obtain k where "0 \<le> k" "k < 1" "w = - 1 * 1 + k"
    unfolding table_inv_def by metis
  then show ?thesis by simp
qed

lemma lookup_newIDs_error_element:
  assumes "lookup_newIDs ID_maps zs = Inl e"
  shows "\<exists>z \<in> set zs. lookup_newIDs ID_maps [z] = Inl e"
  using assms
proof (induction zs)
  case Nil
  then show ?case by simp
next
  case (Cons z zs)
  obtain snap ID where z: "z = (snap, ID)" by (cases z) auto
  show ?case
  proof (cases "lookup_newIDs ID_maps [z]")
    case (Inl e')
    with Cons.prems z have "e' = e"
      by (auto simp: dict_getitem_def split: option.splits sum.splits)
    with Inl show ?thesis by auto
  next
    case (Inr r)
    with Cons.prems z have "lookup_newIDs ID_maps zs = Inl e"
      by (auto simp: dict_getitem_def split: option.splits sum.splits)
    from Cons.IH [OF this] show ?thesis by auto
  qed
qed

lemma sentinel_lookup_total:
  assumes "pass1 a Snap_Keys Snap_Nums f_in = Inr (ID_maps, si)"
      and "2 \<le> index_mult_factor a"
  shows "lookup_newIDs ID_maps [(trunc_div (- 1) (index_mult_factor a), - 1)] = Inr [- 1]"
proof -
  from pass1_zero [OF assms(1)] have "ID_maps 0 = Some [- 1 \<mapsto> - 1]" .
  with trunc_div_sentinel [OF assms(2)] show ?thesis
    by (simp add: dict_getitem_def)
qed

lemma to_write_error_not_sentinel:
  assumes "pass1 a Snap_Keys Snap_Nums f_in = Inr (ID_maps, si)"
      and "2 \<le> index_mult_factor a"
      and "getitem f_in key = Inr g" and "getitem g field = Inr oldID"
      and "field \<in> set (ID_fields a)"
      and "to_write a ID_maps f_in key field = Inl e"
  shows "\<exists>v \<in> set oldID. v \<noteq> - 1
           \<and> lookup_newIDs ID_maps [(trunc_div v (index_mult_factor a), v)] = Inl e"
proof -
  let ?M = "index_mult_factor a"
  let ?zs = "zip (map (\<lambda>v. trunc_div v ?M) oldID) oldID"
  from assms(2) have "?M \<noteq> 0" by simp
  with assms(3,4,5,6) have "lookup_newIDs ID_maps ?zs = Inl e"
    by (simp add: to_write_def temporalID_to_snapnum_def)
  from lookup_newIDs_error_element [OF this] obtain z
    where z: "z \<in> set ?zs" and l: "lookup_newIDs ID_maps [z] = Inl e"
    by blast
  from z obtain v where v: "v \<in> set oldID" and zv: "z = (trunc_div v ?M, v)"
    by (auto simp: zip_map1 zip_same_conv_map)
  have "v \<noteq> - 1"
  proof
    assume "v = - 1"
    with l zv sentinel_lookup_total [OF assms(1,2)] show False by simp
  qed
  with v l zv show ?thesis by blast
qed

text \<open>
  C5, as the claim states it, fails: with the multiplier \<open>1\<close> the sentinel decodes to the
  snapshot number \<open>-1\<close>, not \<open>0\<close>, the table \<open>{-1: -1}\<close> under the key \<open>0\<close> is not
  consulted, and the lookup of \<open>-1\<close> raises \<open>KeyError\<close>. The same dataset with the
  reference \<open>1\<close> in place of \<open>-1\<close> is rewritten without an exception.
\<close>

theorem sentinel_multiplier_one_counterexample:
  "decode 1 (- 1) = Inr (- 1, 0)
   \<and> sort_and_write_file (snapshots_by_table [(''Snap_001'', 1)])
        \<lparr>sort_fields = [Some ''ForestID''], halo_id = ''ID'', ID_fields = [''ID'', ''Head''],
         index_mult_factor = 1\<rparr>
        [(''Snap_001'', [(''ID'', [1]), (''Head'', [- 1]), (''ForestID'', [5])])]
      = (Some KeyError, [(''Snap_001'', [(''ID'', [1]), (''Head'', [- 1]), (''ForestID'', [5])])])
   \<and> sort_and_write_file (snapshots_by_table [(''Snap_001'', 1)])
        \<lparr>sort_fields = [Some ''ForestID''], halo_id = ''ID'', ID_fields = [''ID'', ''Head''],
         index_mult_factor = 1\<rparr>
        [(''Snap_001'', [(''ID'', [1]), (''Head'', [1]), (''ForestID'', [5])])]
      = (None, [(''Snap_001'', [(''ID'', [1]), (''Head'', [1]), (''ForestID'', [5])])])"
  by code_simp

text \<open>
  C5, amended. For every multiplier \<open>M \<ge> 2\<close>, whatever the number of snapshots and the
  snapshot in which the field occurs: once the dictionaries are built, the lookup of
  the sentinel \<open>-1\<close> does not raise and gives \<open>-1\<close>; the translation of an identifier
  field can only raise at a value other than \<open>-1\<close>, and where it does not raise it
  gives \<open>-1\<close> at every position that holds \<open>-1\<close>; and when the run completes, every
  position of an identifier field whose input value is \<open>-1\<close> holds \<open>-1\<close> in the output,
  at the new position of its record. The groups are those the rewrite processes (the
  unique-ID field is present and not empty), with fields of one length.
\<close>

theorem sentinel_preserved:
  assumes "2 \<le> index_mult_factor a"
      and "get_snapkeys_and_nums (map fst f_in) = (Snap_Keys, Snap_Nums)"
      and "pass1 a Snap_Keys Snap_Nums f_in = Inr (ID_maps, si)"
      and "distinct (map fst f_in)"
      and "getitem f_in key = Inr g" and "distinct (map fst g)"
      and "getitem g (halo_id a) = Inr ids" and "ids \<noteq> []"
      and "\<forall>field \<in> set g. length (snd field) = length ids"
      and "field \<in> set (ID_fields a)" and "getitem g field = Inr oldID"
  shows "lookup_newIDs ID_maps [(trunc_div (- 1) (index_mult_factor a), - 1)] = Inr [- 1]
         \<and> (\<forall>e. to_write a ID_maps f_in key field = Inl e \<longrightarrow>
               (\<exists>v \<in> set oldID. v \<noteq> - 1
                  \<and> lookup_newIDs ID_maps [(trunc_div v (index_mult_factor a), v)] = Inl e))
         \<and> (\<forall>tw. to_write a ID_maps f_in key field = Inr tw \<longrightarrow>
               length tw = length oldID
               \<and> (\<forall>j < length oldID. oldID ! j = - 1 \<longrightarrow> tw ! j = - 1))
         \<and> (\<forall>f_out. sort_and_write_file get_snapkeys_and_nums a f_in = (None, f_out) \<longrightarrow>
               (\<exists>indices g' newID.
                  get_sort_indices f_in key a = Inr indices
                  \<and> getitem f_out key = Inr g' \<and> getitem g' field = Inr newID
                  \<and> length newID = length oldID
                  \<and> (\<forall>k < length newID. oldID ! (indices ! k) = - 1 \<longrightarrow> newID ! k = - 1)))"
proof (intro conjI allI impI)
  show "lookup_newIDs ID_maps [(trunc_div (- 1) (index_mult_factor a), - 1)] = Inr [- 1]"
    using assms(3) assms(1) by (rule sentinel_lookup_total)
next
  fix e assume "to_write a ID_maps f_in key field = Inl e"
  with assms(3) assms(1) assms(5) assms(11) assms(10)
  show "\<exists>v \<in> set oldID. v \<noteq> - 1
          \<and> lookup_newIDs ID_maps [(trunc_div v (index_mult_factor a), v)] = Inl e"
    by (rule to_write_error_not_sentinel)
next
  fix tw assume tw: "to_write a ID_maps f_in key field = Inr tw"
  from to_write_result [OF tw assms(5) assms(11) assms(10)]
  show "length tw = length oldID" by simp
next
  fix tw j
  assume tw: "to_write a ID_maps f_in key field = Inr tw"
    and j: "j < length oldID" and s: "oldID ! j = - 1"
  let ?M = "index_mult_factor a"
  from to_write_result [OF tw assms(5) assms(11) assms(10)] j s
  obtain d where d: "ID_maps (trunc_div (- 1) ?M) = Some d" and t: "d (- 1) = Some (tw ! j)"
    by force
  from pass1_inv [OF assms(3)]
  have z: "ID_maps 0 = Some [- 1 \<mapsto> - 1]"
    and tb: "\<forall>s d. s \<noteq> 0 \<and> ID_maps s = Some d \<longrightarrow> table_inv a s d"
    by simp_all
  from assms(1) have M: "0 < ?M" by simp
  from sentinel_lookup [OF z tb M d t] show "tw ! j = - 1" .
next
  fix f_out
  assume run: "sort_and_write_file get_snapkeys_and_nums a f_in = (None, f_out)"
  let ?M = "index_mult_factor a"
  from run assms(2) assms(3)
  have k: "key_loop a ID_maps si f_in (map fst f_in) [] = (None, f_out)"
    by (simp add: sort_and_write_file_def)
  from pass1_inv [OF assms(3)]
  have si: "\<forall>k indices. si k = Some indices \<longrightarrow> snapshot_inv a f_in k indices"
    and z: "ID_maps 0 = Some [- 1 \<mapsto> - 1]"
    and tb: "\<forall>s d. s \<noteq> 0 \<and> ID_maps s = Some d \<longrightarrow> table_inv a s d"
    by simp_all
  have kin: "key \<in> set (map fst f_in)"
    using assms(5)
    by (auto simp: getitem_def split: option.splits dest!: map_of_SomeD intro: rev_image_eqI)
  have h: "has_halos a f_in key"
    using assms(5,7,8) by (simp add: has_halos_def)
  have old: "map_of g field = Some oldID"
    using assms(11) by (auto simp: getitem_def split: option.splits)
  from key_loop_written [OF k kin assms(4) assms(5) assms(6) h old] obtain tw indices v
    where tw: "to_write a ID_maps f_in key field = Inr tw"
      and i: "si key = Some indices" and v: "take_indices tw indices = Inr v"
      and c: "length v = length oldID \<longrightarrow> cell f_out key field = Some v"
    by blast
  from si i have gsi: "get_sort_indices f_in key a = Inr indices"
    by (simp add: snapshot_inv_def)
  from get_sort_indices_perm [OF gsi assms(5) assms(7) assms(9)]
  have len: "length indices = length ids" and set: "set indices = {0..<length ids}"
    by simp_all
  from assms(1) have M: "0 < ?M" by simp
  from old have "(field, oldID) \<in> set g" by (rule map_of_SomeD)
  with assms(9) have lo: "length oldID = length ids" by auto
  from to_write_result [OF tw assms(5) assms(11) assms(10)]
  have lk: "\<forall>j < length oldID. \<exists>d. ID_maps (trunc_div (oldID ! j) ?M) = Some d
                \<and> d (oldID ! j) = Some (tw ! j)"
    by simp
  from v have veq: "v = map (\<lambda>i. tw ! i) indices"
    by (auto simp: take_indices_def split: if_splits)
  with len lo c have cellv: "cell f_out key field = Some v" by simp
  then obtain g' where g': "getitem f_out key = Inr g'" and gf: "getitem g' field = Inr v"
    by (auto simp: cell_def getitem_def split: option.splits)
  have "\<forall>k < length v. oldID ! (indices ! k) = - 1 \<longrightarrow> v ! k = - 1"
  proof (intro allI impI)
    fix k assume kl: "k < length v" and s: "oldID ! (indices ! k) = - 1"
    from kl veq have kl': "k < length indices" by simp
    then have "indices ! k \<in> set indices" by simp
    with set lo have j: "indices ! k < length oldID" by simp
    from lk j s obtain d where d: "ID_maps (trunc_div (- 1) ?M) = Some d"
      and t: "d (- 1) = Some (tw ! (indices ! k))"
      by force
    from sentinel_lookup [OF z tb M d t] have "tw ! (indices ! k) = - 1" .
    with veq kl' show "v ! k = - 1" by simp
  qed
  moreover have "length v = length oldID" using veq len lo by simp
  ultimately show "\<exists>indices g' newID.
      get_sort_indices f_in key a = Inr indices
      \<and> getitem f_out key = Inr g' \<and> getitem g' field = Inr newID
      \<and> length newID = length oldID
      \<and> (\<forall>k < length newID. oldID ! (indices ! k) = - 1 \<longrightarrow> newID ! k = - 1)"
    using gsi g' gf by blast
qed

theorem sentinel_preserved_witness:
  "(\<exists>ID_maps si indices g' newID.
      pass1 \<lparr>sort_fields = [Some ''ForestID''], halo_id = ''ID'',
              ID_fields = [''ID'', ''Head''], index_mult_factor = 10\<rparr>
        [''Snap_001'', ''Snap_002''] (map_of [(''Snap_001'', 1), (''Snap_002'', 2)])
        [(''Header'', [(''Version'', [3])]),
         (''Snap_001'', [(''ID'', [10, 11]), (''Head'', [20, - 1]), (''ForestID'', [7, 5])]),
         (''Snap_002'', [(''ID'', [20]), (''Head'', [- 1]), (''ForestID'', [5])])]
      = Inr (ID_maps, si)
      \<and> lookup_newIDs ID_maps [(trunc_div (- 1) 10, - 1)] = Inr [- 1]
      \<and> get_sort_indices
          [(''Header'', [(''Version'', [3 :: int])]),
           (''Snap_001'', [(''ID'', [10, 11]), (''Head'', [20, - 1]), (''ForestID'', [7, 5])]),
           (''Snap_002'', [(''ID'', [20]), (''Head'', [- 1]), (''ForestID'', [5])])]
          ''Snap_001''
          \<lparr>sort_fields = [Some ''ForestID''], halo_id = ''ID'', ID_fields = [''ID'', ''Head''],
           index_mult_factor = 10\<rparr>
        = Inr indices
      \<and> getitem
          [(''Header'', [(''Version'', [3])]),
           (''Snap_001'', [(''ID'', [10, 11]), (''Head'', [- 1, 20]), (''ForestID'', [5, 7])]),
           (''Snap_002'', [(''ID'', [20 :: int]), (''Head'', [- 1]), (''ForestID'', [5])])]
          ''Snap_001'' = Inr g'
      \<and> getitem g' ''Head'' = Inr newID
      \<and> [20, - 1 :: int] ! (indices ! 0) = - 1 \<and> newID ! 0 = - 1)
   \<and> (\<exists>ID_maps si v.
        pass1 \<lparr>sort_fields = [Some ''ForestID''], halo_id = ''ID'',
                ID_fields = [''ID'', ''Head''], index_mult_factor = 10\<rparr>
          [''Snap_001''] (map_of [(''Snap_001'', 1)])
          [(''Snap_001'', [(''ID'', [10, 11]), (''Head'', [35, - 1]), (''ForestID'', [7, 5])])]
        = Inr (ID_maps, si)
        \<and> v \<in> set [35, - 1] \<and> v \<noteq> - 1
        \<and> lookup_newIDs ID_maps [(trunc_div v 10, v)] = Inl KeyError)"
proof
  let ?a = "\<lparr>sort_fields = [Some ''ForestID''], halo_id = ''ID'', ID_fields = [''ID'', ''Head''],
             index_mult_factor = 10\<rparr>"
  let ?g = "[(''ID'', [10, 11 :: int]), (''Head'', [20, - 1]), (''ForestID'', [7, 5])]"
  let ?f = "[(''Header'', [(''Version'', [3])]), (''Snap_001'', ?g),
             (''Snap_002'', [(''ID'', [20]), (''Head'', [- 1]), (''ForestID'', [5])])]"
  let ?out = "[(''Header'', [(''Version'', [3])]),
          (''Snap_001'', [(''ID'', [10, 11]), (''Head'', [- 1, 20]), (''ForestID'', [5, 7])]),
          (''Snap_002'', [(''ID'', [20 :: int]), (''Head'', [- 1]), (''ForestID'', [5])])]"
  let ?table = "[(''Snap_001'', 1 :: int), (''Snap_002'', 2)]"
  let ?SK = "[''Snap_001'', ''Snap_002'']"
  have run: "sort_and_write_file (snapshots_by_table ?table) ?a ?f = (None, ?out)"
    by code_simp
  have 1: "2 \<le> index_mult_factor ?a"
    by simp
  have 2: "snapshots_by_table ?table (map fst ?f) = (?SK, map_of ?table)"
    by (simp add: snapshots_by_table_def)
  have "case pass1 ?a ?SK (map_of ?table) ?f of Inl e \<Rightarrow> False | Inr st \<Rightarrow> True"
    by code_simp
  then obtain ID_maps si where 3: "pass1 ?a ?SK (map_of ?table) ?f = Inr (ID_maps, si)"
    by (cases "pass1 ?a ?SK (map_of ?table) ?f") auto
  have 4: "distinct (map fst ?f)"
    by simp
  have 5: "getitem ?f ''Snap_001'' = Inr ?g"
    by (simp add: getitem_def)
  have 6: "distinct (map fst ?g)"
    by simp
  have 7: "getitem ?g (halo_id ?a) = Inr [10, 11]"
    by (simp add: getitem_def)
  have 8: "[10, 11 :: int] \<noteq> []"
    by simp
  have 9: "\<forall>field \<in> set ?g. length (snd field) = length [10, 11 :: int]"
    by simp
  have 10: "''Head'' \<in> set (ID_fields ?a)"
    by simp
  have 11: "getitem ?g ''Head'' = Inr [20, - 1]"
    by (simp add: getitem_def)
  note sp = sentinel_preserved [where get_snapkeys_and_nums = "snapshots_by_table ?table",
      OF 1 2 3 4 5 6 7 8 9 10 11]
  from sp have look: "lookup_newIDs ID_maps [(trunc_div (- 1) (index_mult_factor ?a), - 1)] = Inr [- 1]"
    by blast
  from sp run obtain indices g' newID
    where i: "get_sort_indices ?f ''Snap_001'' ?a = Inr indices"
      and g': "getitem ?out ''Snap_001'' = Inr g'" and n: "getitem g' ''Head'' = Inr newID"
      and l: "length newID = length [20, - 1 :: int]"
      and s: "\<forall>k < length newID. [20, - 1 :: int] ! (indices ! k) = - 1 \<longrightarrow> newID ! k = - 1"
    by blast
  have "get_sort_indices ?f ''Snap_001'' ?a = Inr [1, 0]"
    by code_simp
  with i have "indices = [1, 0]" by simp
  then have o: "[20, - 1 :: int] ! (indices ! 0) = - 1" by simp
  moreover from l have "0 < length newID" by simp
  ultimately have "newID ! 0 = - 1" using s by blast
  moreover from look have "lookup_newIDs ID_maps [(trunc_div (- 1) 10, - 1)] = Inr [- 1]"
    by simp
  ultimately show "\<exists>ID_maps si indices g' newID.
      pass1 ?a ?SK (map_of ?table) ?f = Inr (ID_maps, si)
      \<and> lookup_newIDs ID_maps [(trunc_div (- 1) 10, - 1)] = Inr [- 1]
      \<and> get_sort_indices ?f ''Snap_001'' ?a = Inr indices
      \<and> getitem ?out ''Snap_001'' = Inr g'
      \<and> getitem g' ''Head'' = Inr newID
      \<and> [20, - 1 :: int] ! (indices ! 0) = - 1 \<and> newID ! 0 = - 1"
    using 3 i g' n o by blast
next
  let ?a = "\<lparr>sort_fields = [Some ''ForestID''], halo_id = ''ID'', ID_fields = [''ID'', ''Head''],
             index_mult_factor = 10\<rparr>"
  let ?g = "[(''ID'', [10, 11 :: int]), (''Head'', [35, - 1]), (''ForestID'', [7, 5])]"
  let ?f = "[(''Snap_001'', ?g)]"
  let ?table = "[(''Snap_001'', 1 :: int)]"
  let ?SK = "[''Snap_001'']"
  have 1: "2 \<le> index_mult_factor ?a"
    by simp
  have 2: "snapshots_by_table ?table (map fst ?f) = (?SK, map_of ?table)"
    by (simp add: snapshots_by_table_def)
  have "case pass1 ?a ?SK (map_of ?table) ?f of
          Inl e \<Rightarrow> False
        | Inr (ID_maps, si) \<Rightarrow> to_write ?a ID_maps ?f ''Snap_001'' ''Head'' = Inl KeyError"
    by code_simp
  then obtain ID_maps si where 3: "pass1 ?a ?SK (map_of ?table) ?f = Inr (ID_maps, si)"
    and tw: "to_write ?a ID_maps ?f ''Snap_001'' ''Head'' = Inl KeyError"
    by (cases "pass1 ?a ?SK (map_of ?table) ?f") auto
  have 4: "distinct (map fst ?f)"
    by simp
  have 5: "getitem ?f ''Snap_001'' = Inr ?g"
    by (simp add: getitem_def)
  have 6: "distinct (map fst ?g)"
    by simp
  have 7: "getitem ?g (halo_id ?a) = Inr [10, 11]"
    by (simp add: getitem_def)
  have 8: "[10, 11 :: int] \<noteq> []"
    by simp
  have 9: "\<forall>field \<in> set ?g. length (snd field) = length [10, 11 :: int]"
    by simp
  have 10: "''Head'' \<in> set (ID_fields ?a)"
    by simp
  have 11: "getitem ?g ''Head'' = Inr [35, - 1]"
    by (simp add: getitem_def)
  note sp = sentinel_preserved [where get_snapkeys_and_nums = "snapshots_by_table ?table",
      OF 1 2 3 4 5 6 7 8 9 10 11]
  from sp tw obtain v where "v \<in> set [35, - 1 :: int]" "v \<noteq> - 1"
    "lookup_newIDs ID_maps [(trunc_div v (index_mult_factor ?a), v)] = Inl KeyError"
    by blast
  then have "v \<in> set [35, - 1 :: int] \<and> v \<noteq> - 1
      \<and> lookup_newIDs ID_maps [(trunc_div v 10, v)] = Inl KeyError"
    by simp
  with 3 show "\<exists>ID_maps si v.
        pass1 ?a ?SK (map_of ?table) ?f = Inr (ID_maps, si)
        \<and> v \<in> set [35, - 1] \<and> v \<noteq> - 1
        \<and> lookup_newIDs ID_maps [(trunc_div v 10, v)] = Inl KeyError"
    by blast
qed

subsection \<open>References into the other snapshots\<close>

lemma pass1_loop_tables:
  assumes "pass1_loop a Snap_Nums f_in keys (ID_maps, si) = Inr (ID_maps', si')"
      and "ID_maps' s = Some d"
  shows "ID_maps s = Some d
         \<or> (\<exists>k \<in> set keys. \<exists>indices. snapshot_map a Snap_Nums f_in k = Inr (Some (indices, s, d)))"
  using assms
proof (induction keys arbitrary: ID_maps si)
  case Nil
  then show ?case by simp
next
  case (Cons x xs)
  show ?case
  proof (cases "snapshot_map a Snap_Nums f_in x")
    case (Inl e)
    with Cons.prems show ?thesis by simp
  next
    case (Inr res)
    show ?thesis
    proof (cases res)
      case None
      with Inr Cons.prems have "pass1_loop a Snap_Nums f_in xs (ID_maps, si) = Inr (ID_maps', si')"
        by simp
      from Cons.IH [OF this Cons.prems(2)] show ?thesis by auto
    next
      case (Some t)
      obtain indices snapnum d' where t: "t = (indices, snapnum, d')" by (cases t) auto
      with Inr Some Cons.prems
      have l: "pass1_loop a Snap_Nums f_in xs (ID_maps(snapnum \<mapsto> d'), si(x \<mapsto> indices))
                 = Inr (ID_maps', si')"
        by simp
      from Cons.IH [OF l Cons.prems(2)]
      have "(ID_maps(snapnum \<mapsto> d')) s = Some d
            \<or> (\<exists>k \<in> set xs. \<exists>indices. snapshot_map a Snap_Nums f_in k = Inr (Some (indices, s, d)))" .
      then show ?thesis
      proof
        assume u: "(ID_maps(snapnum \<mapsto> d')) s = Some d"
        show ?thesis
        proof (cases "snapnum = s")
          case True
          with u have "d' = d" by simp
          with Inr Some t True
          have "snapshot_map a Snap_Nums f_in x = Inr (Some (indices, s, d))" by simp
          then show ?thesis by auto
        next
          case False
          with u show ?thesis by simp
        qed
      next
        assume "\<exists>k \<in> set xs. \<exists>indices. snapshot_map a Snap_Nums f_in k = Inr (Some (indices, s, d))"
        then show ?thesis by auto
      qed
    qed
  qed
qed

lemma pass1_tables:
  assumes "pass1 a Snap_Keys Snap_Nums f_in = Inr (ID_maps, si)"
      and "ID_maps s = Some d" and "s \<noteq> 0"
  shows "\<exists>k \<in> set Snap_Keys. \<exists>indices. snapshot_map a Snap_Nums f_in k = Inr (Some (indices, s, d))"
proof -
  from assms(1) obtain ID_maps0
    where l: "pass1_loop a Snap_Nums f_in Snap_Keys (Map.empty, Map.empty) = Inr (ID_maps0, si)"
      and e: "ID_maps = ID_maps0(0 \<mapsto> [- 1 \<mapsto> - 1])"
    by (auto simp: pass1_def split: sum.splits prod.splits)
  from e assms(2,3) have "ID_maps0 s = Some d" by simp
  from pass1_loop_tables [OF l this] show ?thesis by simp
qed

lemma snapshot_map_table:
  assumes "snapshot_map a Snap_Nums f_in k = Inr (Some (indices, s, d))"
      and "getitem f_in k = Inr g" and "getitem g (halo_id a) = Inr ids"
  shows "Snap_Nums k = Some s \<and> get_sort_indices f_in k a = Inr indices
         \<and> take_indices ids indices = Inr (map (\<lambda>i. ids ! i) indices)
         \<and> d = dict_zip (map (\<lambda>i. ids ! i) indices)
                  (map (\<lambda>j. s * index_mult_factor a + int j) [0..<length indices])"
proof -
  let ?M = "index_mult_factor a"
  from assms obtain olds news
    where g: "get_sort_indices f_in k a = Inr indices"
      and t: "take_indices ids indices = Inr olds"
      and sn: "Snap_Nums k = Some s"
      and n: "index_to_temporalID (map int [0..<length indices]) s ?M = Inr news"
      and d: "d = dict_zip olds news"
    by (auto simp: snapshot_map_def dict_getitem_def split: sum.splits if_splits option.splits)
  from t have olds: "olds = map (\<lambda>i. ids ! i) indices"
    by (auto simp: take_indices_def split: if_splits)
  from index_to_temporalID_result [OF n]
  have "news = map (\<lambda>j. s * ?M + int j) [0..<length indices]"
    by (simp add: comp_def)
  with g t sn d olds show ?thesis by simp
qed

lemma snapshot_map_number:
  assumes "snapshot_map a Snap_Nums f_in k = Inr (Some (indices, s, d))"
  shows "Snap_Nums k = Some s"
  using assms
  by (auto simp: snapshot_map_def dict_getitem_def split: sum.splits if_splits option.splits)

lemma decode_value:
  assumes "decode M v = Inr (s, i)"
  shows "M \<noteq> 0 \<and> trunc_div v M = s \<and> v = s * M + i"
  using assms by (auto simp: decode_def trunc_rem_def split: if_splits)

text \<open>
  References into a snapshot with a number other than \<open>0\<close>. When the run completes,
  an identifier that decodes to such a snapshot \<open>s\<close> and the local index \<open>i\<close> is
  replaced by \<open>s * M + k\<close>, where \<open>k\<close> is the new position of the record at old index
  \<open>i\<close>, provided the unique IDs of snapshot \<open>s\<close> are positional (the ID at index \<open>i\<close>
  is \<open>s * M + i\<close>) and no other snapshot has the number \<open>s\<close>.
\<close>

lemma cross_reference_rewritten:
  assumes "sort_and_write_file get_snapkeys_and_nums a f_in = (None, f_out)"
      and "get_snapkeys_and_nums (map fst f_in) = (Snap_Keys, Snap_Nums)"
      and "distinct (map fst f_in)"
      and "getitem f_in key = Inr g" and "distinct (map fst g)"
      and "getitem g (halo_id a) = Inr ids" and "ids \<noteq> []"
      and "\<forall>field \<in> set g. length (snd field) = length ids"
      and "field \<in> set (ID_fields a)" and "getitem g field = Inr oldID"
      and "s \<noteq> 0"
      and "\<forall>k \<in> set Snap_Keys. Snap_Nums k = Some s \<longrightarrow> k = tkey"
      and "getitem f_in tkey = Inr tg" and "getitem tg (halo_id a) = Inr tids"
      and "\<forall>field \<in> set tg. length (snd field) = length tids"
      and "\<forall>i < length tids. tids ! i = s * index_mult_factor a + int i"
      and "get_sort_indices f_in tkey a = Inr tindices"
  shows "\<exists>indices g' newID.
           get_sort_indices f_in key a = Inr indices
           \<and> getitem f_out key = Inr g' \<and> getitem g' field = Inr newID
           \<and> length newID = length oldID
           \<and> (\<forall>p < length newID. \<forall>i k.
                 decode (index_mult_factor a) (oldID ! (indices ! p)) = Inr (s, int i)
                 \<and> k < length tindices \<and> tindices ! k = i
                 \<longrightarrow> newID ! p = s * index_mult_factor a + int k)"
proof -
  let ?M = "index_mult_factor a"
  from assms(1,2) obtain ID_maps si
    where p: "pass1 a Snap_Keys Snap_Nums f_in = Inr (ID_maps, si)"
      and k: "key_loop a ID_maps si f_in (map fst f_in) [] = (None, f_out)"
    by (auto simp: sort_and_write_file_def split: sum.splits)
  from pass1_inv [OF p]
  have si: "\<forall>k indices. si k = Some indices \<longrightarrow> snapshot_inv a f_in k indices"
    by simp
  have kin: "key \<in> set (map fst f_in)"
    using assms(4)
    by (auto simp: getitem_def split: option.splits dest!: map_of_SomeD intro: rev_image_eqI)
  have h: "has_halos a f_in key"
    using assms(4,6,7) by (simp add: has_halos_def)
  have old: "map_of g field = Some oldID"
    using assms(10) by (auto simp: getitem_def split: option.splits)
  from key_loop_written [OF k kin assms(3) assms(4) assms(5) h old] obtain tw indices v
    where tw: "to_write a ID_maps f_in key field = Inr tw"
      and i: "si key = Some indices" and v: "take_indices tw indices = Inr v"
      and c: "length v = length oldID \<longrightarrow> cell f_out key field = Some v"
    by blast
  from si i have gsi: "get_sort_indices f_in key a = Inr indices"
    by (simp add: snapshot_inv_def)
  from get_sort_indices_perm [OF gsi assms(4) assms(6) assms(8)]
  have len: "length indices = length ids" and set: "set indices = {0..<length ids}"
    by simp_all
  from old have "(field, oldID) \<in> set g" by (rule map_of_SomeD)
  with assms(8) have lo: "length oldID = length ids" by auto
  from to_write_result [OF tw assms(4) assms(10) assms(9)]
  have lk: "\<forall>j < length oldID. \<exists>d. ID_maps (trunc_div (oldID ! j) ?M) = Some d
                \<and> d (oldID ! j) = Some (tw ! j)"
    by simp
  from v have veq: "v = map (\<lambda>i. tw ! i) indices"
    by (auto simp: take_indices_def split: if_splits)
  with len lo c have cellv: "cell f_out key field = Some v" by simp
  then obtain g' where g': "getitem f_out key = Inr g'" and gf: "getitem g' field = Inr v"
    by (auto simp: cell_def getitem_def split: option.splits)
  from get_sort_indices_perm [OF assms(17) assms(13) assms(14) assms(15)]
  have tlen: "length tindices = length tids" and tdist: "distinct tindices"
    and tset: "set tindices = {0..<length tids}"
    by simp_all
  let ?olds = "map (\<lambda>i. tids ! i) tindices"
  let ?news = "map (\<lambda>j. s * ?M + int j) [0..<length tindices]"
  have inj: "inj_on (\<lambda>i. tids ! i) (set tindices)"
  proof (rule inj_onI)
    fix x y assume "x \<in> set tindices" "y \<in> set tindices" "tids ! x = tids ! y"
    with tset assms(16) show "x = y" by simp
  qed
  with tdist have dolds: "distinct ?olds" by (simp add: distinct_map)
  have "\<forall>p < length v. \<forall>i k.
          decode ?M (oldID ! (indices ! p)) = Inr (s, int i)
          \<and> k < length tindices \<and> tindices ! k = i
          \<longrightarrow> v ! p = s * ?M + int k"
  proof (intro allI impI)
    fix p i k
    assume pl: "p < length v"
      and "decode ?M (oldID ! (indices ! p)) = Inr (s, int i)
           \<and> k < length tindices \<and> tindices ! k = i"
    then have dec: "decode ?M (oldID ! (indices ! p)) = Inr (s, int i)"
      and kl: "k < length tindices" and ki: "tindices ! k = i"
      by simp_all
    from pl veq have pl': "p < length indices" by simp
    then have "indices ! p \<in> set indices" by simp
    with set lo have j: "indices ! p < length oldID" by simp
    from decode_value [OF dec]
    have td: "trunc_div (oldID ! (indices ! p)) ?M = s"
      and val: "oldID ! (indices ! p) = s * ?M + int i"
      by blast+
    from lk j td obtain d where d: "ID_maps s = Some d"
      and t: "d (oldID ! (indices ! p)) = Some (tw ! (indices ! p))"
      by force
    from pass1_tables [OF p d assms(11)] obtain k' idx
      where k': "k' \<in> set Snap_Keys"
        and sm: "snapshot_map a Snap_Nums f_in k' = Inr (Some (idx, s, d))"
      by blast
    from snapshot_map_number [OF sm] k' assms(12) have "k' = tkey" by simp
    with sm have sm': "snapshot_map a Snap_Nums f_in tkey = Inr (Some (idx, s, d))" by simp
    from snapshot_map_table [OF sm' assms(13) assms(14)] assms(17)
    have deq: "d = dict_zip ?olds ?news" by auto
    from kl have "tindices ! k \<in> set tindices" by simp
    with tset ki have il: "i < length tids" by simp
    with assms(16) ki kl val have ok: "?olds ! k = oldID ! (indices ! p)" by simp
    have later: "\<forall>j. k < j \<and> j < length ?olds \<longrightarrow> ?olds ! j \<noteq> ?olds ! k"
      using dolds kl by (auto simp: distinct_conv_nth simp del: nth_map)
    have 1: "k < length ?olds" using kl by simp
    have 2: "length ?news = length ?olds" by simp
    from map_upds_last_wins [OF 1 2 later, of Map.empty] deq ok kl
    have "d (oldID ! (indices ! p)) = Some (s * ?M + int k)"
      by (simp add: dict_zip_def)
    with t have "tw ! (indices ! p) = s * ?M + int k" by simp
    with veq pl' show "v ! p = s * ?M + int k" by simp
  qed
  moreover have "length v = length oldID" using veq len lo by simp
  ultimately show ?thesis using gsi g' gf by blast
qed

lemma cross_reference_rewritten_example:
  "\<exists>indices g' newID.
     get_sort_indices
       [(''Snap_001'', [(''ID'', [10, 11 :: int]), (''Head'', [21, - 1]), (''ForestID'', [7, 5])]),
        (''Snap_002'', [(''ID'', [20, 21]), (''Head'', [- 1, - 1]), (''ForestID'', [7, 5])])]
       ''Snap_001''
       \<lparr>sort_fields = [Some ''ForestID''], halo_id = ''ID'', ID_fields = [''ID'', ''Head''],
        index_mult_factor = 10\<rparr>
     = Inr indices
     \<and> getitem
         [(''Snap_001'', [(''ID'', [10, 11 :: int]), (''Head'', [- 1, 20]), (''ForestID'', [5, 7])]),
          (''Snap_002'', [(''ID'', [20, 21]), (''Head'', [- 1, - 1]), (''ForestID'', [5, 7])])]
         ''Snap_001'' = Inr g'
     \<and> getitem g' ''Head'' = Inr newID
     \<and> indices ! 1 = 0 \<and> newID ! 1 = 2 * 10 + 0"
proof -
  let ?a = "\<lparr>sort_fields = [Some ''ForestID''], halo_id = ''ID'', ID_fields = [''ID'', ''Head''],
             index_mult_factor = 10\<rparr>"
  let ?g = "[(''ID'', [10, 11 :: int]), (''Head'', [21, - 1]), (''ForestID'', [7, 5])]"
  let ?tg = "[(''ID'', [20, 21 :: int]), (''Head'', [- 1, - 1]), (''ForestID'', [7, 5])]"
  let ?f = "[(''Snap_001'', ?g), (''Snap_002'', ?tg)]"
  let ?out = "[(''Snap_001'', [(''ID'', [10, 11 :: int]), (''Head'', [- 1, 20]), (''ForestID'', [5, 7])]),
          (''Snap_002'', [(''ID'', [20, 21]), (''Head'', [- 1, - 1]), (''ForestID'', [5, 7])])]"
  let ?table = "[(''Snap_001'', 1 :: int), (''Snap_002'', 2)]"
  have 1: "sort_and_write_file (snapshots_by_table ?table) ?a ?f = (None, ?out)"
    by code_simp
  have 2: "snapshots_by_table ?table (map fst ?f) = ([''Snap_001'', ''Snap_002''], map_of ?table)"
    by (simp add: snapshots_by_table_def)
  have 3: "distinct (map fst ?f)"
    by simp
  have 4: "getitem ?f ''Snap_001'' = Inr ?g"
    by (simp add: getitem_def)
  have 5: "distinct (map fst ?g)"
    by simp
  have 6: "getitem ?g (halo_id ?a) = Inr [10, 11]"
    by (simp add: getitem_def)
  have 7: "[10, 11 :: int] \<noteq> []"
    by simp
  have 8: "\<forall>field \<in> set ?g. length (snd field) = length [10, 11 :: int]"
    by simp
  have 9: "''Head'' \<in> set (ID_fields ?a)"
    by simp
  have 10: "getitem ?g ''Head'' = Inr [21, - 1]"
    by (simp add: getitem_def)
  have 11: "(2 :: int) \<noteq> 0"
    by simp
  have 12: "\<forall>k \<in> set [''Snap_001'', ''Snap_002'']. map_of ?table k = Some 2 \<longrightarrow> k = ''Snap_002''"
    by simp
  have 13: "getitem ?f ''Snap_002'' = Inr ?tg"
    by (simp add: getitem_def)
  have 14: "getitem ?tg (halo_id ?a) = Inr [20, 21]"
    by (simp add: getitem_def)
  have 15: "\<forall>field \<in> set ?tg. length (snd field) = length [20, 21 :: int]"
    by simp
  have 16: "\<forall>i < length [20, 21 :: int]. [20, 21] ! i = 2 * index_mult_factor ?a + int i"
    by (simp add: less_Suc_eq)
  have 17: "get_sort_indices ?f ''Snap_002'' ?a = Inr [1, 0]"
    by code_simp
  from cross_reference_rewritten [OF 1 2 3 4 5 6 7 8 9 10 11 12 13 14 15 16 17]
  obtain indices g' newID
    where i: "get_sort_indices ?f ''Snap_001'' ?a = Inr indices"
      and g': "getitem ?out ''Snap_001'' = Inr g'" and n: "getitem g' ''Head'' = Inr newID"
      and l: "length newID = length [21, - 1 :: int]"
      and r: "\<forall>p < length newID. \<forall>i k.
                 decode (index_mult_factor ?a) ([21, - 1] ! (indices ! p)) = Inr (2, int i)
                 \<and> k < length [1, 0 :: nat] \<and> [1, 0] ! k = i
                 \<longrightarrow> newID ! p = 2 * index_mult_factor ?a + int k"
    by blast
  have "get_sort_indices ?f ''Snap_001'' ?a = Inr [1, 0]"
    by code_simp
  with i have ind: "indices = [1, 0]" by simp
  have d: "decode (index_mult_factor ?a) ([21, - 1] ! (indices ! 1)) = Inr (2, int 1)"
    unfolding ind by (simp add: decode_def trunc_div_def trunc_rem_def)
  have k: "(0 :: nat) < length [1, 0 :: nat] \<and> [1, 0] ! 0 = (1 :: nat)"
    by simp
  from l have pl: "1 < length newID" by simp
  from r pl d k have "newID ! 1 = 2 * index_mult_factor ?a + int 0"
    by blast
  then have "newID ! 1 = 2 * 10 + 0" by simp
  moreover from ind have "indices ! 1 = 0" by simp
  ultimately show ?thesis using i g' n by blast
qed

subsection \<open>References into snapshot 0\<close>

text \<open>
  C1 at a dataset whose snapshot \<open>0\<close> has records. The identifier \<open>1\<close> decodes to
  snapshot \<open>0\<close> and local index \<open>1\<close>, and the sort places the record at old index \<open>1\<close>
  of snapshot \<open>0\<close> at the new position \<open>0\<close>, so the claim asks for \<open>encode(0, 0) = 0\<close>
  in the output wherever the input holds \<open>1\<close>. The run ends with \<open>KeyError\<close> at the
  first identifier of snapshot \<open>0\<close> instead, and the field \<open>Tail\<close> of snapshot \<open>1\<close>, which
  holds the reference, is never written.
\<close>

theorem snapshot_zero_reference_fails:
  "decode 10 1 = Inr (0, 1)
   \<and> get_sort_indices
        [(''Snap_000'', [(''ID'', [0, 1 :: int]), (''Tail'', [- 1, - 1]), (''ForestID'', [7, 5])]),
         (''Snap_001'', [(''ID'', [10]), (''Tail'', [1]), (''ForestID'', [5])])]
        ''Snap_000''
        \<lparr>sort_fields = [Some ''ForestID''], halo_id = ''ID'', ID_fields = [''ID'', ''Tail''],
         index_mult_factor = 10\<rparr>
      = Inr [1, 0]
   \<and> sort_and_write_file (snapshots_by_table [(''Snap_000'', 0), (''Snap_001'', 1)])
        \<lparr>sort_fields = [Some ''ForestID''], halo_id = ''ID'', ID_fields = [''ID'', ''Tail''],
         index_mult_factor = 10\<rparr>
        [(''Snap_000'', [(''ID'', [0, 1]), (''Tail'', [- 1, - 1]), (''ForestID'', [7, 5])]),
         (''Snap_001'', [(''ID'', [10]), (''Tail'', [1]), (''ForestID'', [5])])]
      = (Some KeyError,
         [(''Snap_000'', [(''ID'', [0, 1]), (''Tail'', [- 1, - 1]), (''ForestID'', [7, 5])])])"
  by code_simp

text \<open>
  C4 at a dataset whose only snapshot has the number \<open>0\<close> and three records with
  pairwise distinct IDs. The table built for the snapshot maps \<open>1\<close>, \<open>2\<close>, \<open>0\<close> to
  \<open>0\<close>, \<open>1\<close>, \<open>2\<close>, but the entry of \<open>ID_maps\<close> for the snapshot is then replaced, and
  the rewrite of its unique-ID field ends with \<open>KeyError\<close>: no field of the snapshot is
  written in sorted order.
\<close>

theorem snapshot_zero_unique_ids_fail:
  "distinct [0, 1, 2 :: int]
   \<and> (case snapshot_map
        \<lparr>sort_fields = [Some ''ForestID''], halo_id = ''ID'', ID_fields = [''ID''],
         index_mult_factor = 10\<rparr>
        (map_of [(''Snap_000'', 0)])
        [(''Snap_000'', [(''ID'', [0, 1, 2]), (''ForestID'', [3, 1, 2])])] ''Snap_000'' of
         Inr (Some (indices, snapnum, oldIDs_to_newIDs)) \<Rightarrow>
           indices = [1, 2, 0] \<and> snapnum = 0
           \<and> map oldIDs_to_newIDs [1, 2, 0] = [Some 0, Some 1, Some 2]
       | _ \<Rightarrow> False)
   \<and> sort_and_write_file (snapshots_by_table [(''Snap_000'', 0)])
        \<lparr>sort_fields = [Some ''ForestID''], halo_id = ''ID'', ID_fields = [''ID''],
         index_mult_factor = 10\<rparr>
        [(''Snap_000'', [(''ID'', [0, 1, 2]), (''ForestID'', [3, 1, 2])])]
      = (Some KeyError, [(''Snap_000'', [(''ID'', [0, 1, 2]), (''ForestID'', [3, 1, 2])])])"
  by code_simp

end
